theory Spec2Isabelle
  imports Main "HOL-Library.Word" "HOL-Library.Sublist"
begin

section \<open>Strings, bytes and the JavaScript string primitives the code calls\<close>

text \<open>
  A JavaScript string is modelled as a \<open>string\<close> whose characters are code units below 256
  (every string the two encryption modules build or accept successfully is of that kind:
  hex digits, base64 text, data-URL prefixes, and the "binary strings" of \<open>atob\<close> and
  \<open>btoa\<close>).  A \<open>Uint8Array\<close> is a list of bytes.
\<close>

type_synonym byte = "8 word"
type_synonym bytes = "byte list"

text \<open>\<open>String.fromCharCode(b)\<close> for a byte, and \<open>s.charCodeAt(i)\<close> stored into a \<open>Uint8Array\<close>.\<close>

definition fromCharCode :: "byte \<Rightarrow> char" where
  "fromCharCode b = char_of (unat b)"

definition charCodeAt :: "char \<Rightarrow> byte" where
  "charCodeAt c = of_nat (of_char c)"

text \<open>\<open>s.includes(m)\<close>: does \<open>m\<close> occur in \<open>s\<close> as a contiguous run?\<close>

fun includes_str :: "string \<Rightarrow> string \<Rightarrow> bool" where
  "includes_str [] m = (m = [])"
| "includes_str (c # cs) m = (prefix m (c # cs) \<or> includes_str cs m)"

text \<open>
  \<open>s.split(sep)\<close> for a non-empty separator: the segments between the successive
  non-overlapping occurrences of \<open>sep\<close>, found from left to right.  The second argument is the
  segment being collected.
\<close>

function split_from :: "string \<Rightarrow> string \<Rightarrow> string \<Rightarrow> string list" where
  "split_from sep seg [] = [seg]"
| "split_from sep seg (c # cs) =
     (if sep \<noteq> [] \<and> prefix sep (c # cs)
      then seg # split_from sep [] (drop (length sep) (c # cs))
      else split_from sep (seg @ [c]) cs)"
  by pat_completeness auto
termination
  by (relation "measure (\<lambda>(sep, seg, s). length s)") auto

definition split :: "string \<Rightarrow> string \<Rightarrow> string list" where
  "split s sep = split_from sep [] s"

text \<open>
  \<open>s.trim()\<close> removes leading and trailing white space and line terminators; among the code
  units below 256 these are TAB, LF, VT, FF, CR, SPACE and NBSP.
\<close>

definition isJsWhiteSpace :: "char \<Rightarrow> bool" where
  "isJsWhiteSpace c = (of_char c \<in> {9, 10, 11, 12, 13, 32, 160 :: nat})"

definition trim :: "string \<Rightarrow> string" where
  "trim s = rev (dropWhile isJsWhiteSpace (rev (dropWhile isJsWhiteSpace s)))"

section \<open>Base64: the platform functions \<open>btoa\<close> and \<open>atob\<close>\<close>

text \<open>
  \<open>btoa\<close> and \<open>atob\<close> are browser functions; they are modelled after the
  WHATWG "forgiving-base64" encode and decode algorithms that define them.
\<close>

definition b64char :: "nat \<Rightarrow> char" where
  "b64char n =
     (if n < 26 then char_of (65 + n)
      else if n < 52 then char_of (71 + n)
      else if n < 62 then char_of (n - 4)
      else if n = 62 then CHR ''+'' else CHR ''/'')"

definition b64val :: "char \<Rightarrow> nat option" where
  "b64val c =
     (let k = (of_char c :: nat) in
      if 65 \<le> k \<and> k \<le> 90 then Some (k - 65)
      else if 97 \<le> k \<and> k \<le> 122 then Some (k - 71)
      else if 48 \<le> k \<and> k \<le> 57 then Some (k + 4)
      else if c = CHR ''+'' then Some 62
      else if c = CHR ''/'' then Some 63
      else None)"

fun b64groups :: "nat list \<Rightarrow> string" where
  "b64groups (a # b # c # r) =
     [b64char (a div 4), b64char ((a mod 4) * 16 + b div 16),
      b64char ((b mod 16) * 4 + c div 64), b64char (c mod 64)] @ b64groups r"
| "b64groups [a, b] =
     [b64char (a div 4), b64char ((a mod 4) * 16 + b div 16),
      b64char ((b mod 16) * 4), CHR ''='']"
| "b64groups [a] =
     [b64char (a div 4), b64char ((a mod 4) * 16), CHR ''='', CHR ''='']"
| "b64groups [] = []"

text \<open>\<open>btoa(binary)\<close>; no character of the model is above 255, so it never throws.\<close>

definition btoa :: "string \<Rightarrow> string" where
  "btoa binary = b64groups (map of_char binary)"

definition isAsciiWhitespace :: "char \<Rightarrow> bool" where
  "isAsciiWhitespace c = (of_char c \<in> {9, 10, 12, 13, 32 :: nat})"

definition stripPadding :: "string \<Rightarrow> string" where
  "stripPadding d =
     (if length d mod 4 = 0 then
        (if 2 \<le> length d \<and> drop (length d - 2) d = ''=='' then take (length d - 2) d
         else if 1 \<le> length d \<and> last d = CHR ''='' then butlast d
         else d)
      else d)"

fun sextetsToBytes :: "nat list \<Rightarrow> nat list" where
  "sextetsToBytes (a # b # c # d # r) =
     [a * 4 + b div 16, (b mod 16) * 16 + c div 4, (c mod 4) * 64 + d] @ sextetsToBytes r"
| "sextetsToBytes [a, b, c] = [a * 4 + b div 16, (b mod 16) * 16 + c div 4]"
| "sextetsToBytes [a, b] = [a * 4 + b div 16]"
| "sextetsToBytes _ = []"

text \<open>\<open>atob(data)\<close>; \<open>None\<close> is the \<open>InvalidCharacterError\<close> it throws.\<close>

definition atob :: "string \<Rightarrow> string option" where
  "atob dat =
     (let d = stripPadding (filter (\<lambda>c. \<not> isAsciiWhitespace c) dat) in
      if length d mod 4 = 1 then None
      else if \<exists>c \<in> set d. b64val c = None then None
      else Some (map char_of (sextetsToBytes (map (\<lambda>c. the (b64val c)) d))))"

section \<open>Hex: the key transport format\<close>

definition isHexDigit :: "char \<Rightarrow> bool" where
  "isHexDigit c =
     (let k = (of_char c :: nat) in
      (48 \<le> k \<and> k \<le> 57) \<or> (97 \<le> k \<and> k \<le> 102) \<or> (65 \<le> k \<and> k \<le> 70))"

definition hexDigitValue :: "char \<Rightarrow> nat" where
  "hexDigitValue c =
     (let k = (of_char c :: nat) in
      if k \<le> 57 then k - 48 else if 97 \<le> k then k - 87 else k - 55)"

text \<open>
  \<open>Number.parseInt(s, 16)\<close>: skip leading white space, read an optional sign, skip an
  optional \<open>0x\<close> or \<open>0X\<close>, then read the longest run of hex digits; \<open>None\<close> is \<open>NaN\<close>
  (no digit).  The code only applies it to strings of one or two characters, where the
  result is exact.
\<close>

definition parseInt16 :: "string \<Rightarrow> int option" where
  "parseInt16 s =
     (let s1 = dropWhile isJsWhiteSpace s;
          neg = (s1 \<noteq> [] \<and> hd s1 = CHR ''-'');
          s2 = (if s1 \<noteq> [] \<and> (hd s1 = CHR ''+'' \<or> hd s1 = CHR ''-'') then tl s1 else s1);
          s3 = (if take 2 s2 = ''0x'' \<or> take 2 s2 = ''0X'' then drop 2 s2 else s2);
          ds = takeWhile isHexDigit s3;
          n = foldl (\<lambda>acc c. 16 * acc + int (hexDigitValue c)) 0 ds
      in if ds = [] then None else Some (if neg then - n else n))"

text \<open>Storing a number into a \<open>Uint8Array\<close>: \<open>NaN\<close> becomes 0, an integer wraps modulo 256.\<close>

definition toUint8 :: "int option \<Rightarrow> byte" where
  "toUint8 v = (case v of None \<Rightarrow> 0 | Some i \<Rightarrow> word_of_int i)"

text \<open>
  \<open>hexString.match(/[\da-f]{2}/gi) || []\<close>: the successive non-overlapping pairs of hex
  digits, scanning from the left; a character that does not start a pair is passed over.
\<close>

fun hexPairs :: "string \<Rightarrow> string list" where
  "hexPairs (a # b # r) =
     (if isHexDigit a \<and> isHexDigit b then [a, b] # hexPairs r else hexPairs (b # r))"
| "hexPairs _ = []"

definition hexStringToBuffer :: "string \<Rightarrow> bytes" where
  "hexStringToBuffer hexString = map (\<lambda>s. toUint8 (parseInt16 s)) (hexPairs hexString)"

text \<open>
  \<open>key.match(/.{1,2}/g) || []\<close> of \<open>encryptImage\<close> and \<open>decryptImage\<close>: runs of two
  characters (one at the end of a run) that are not line terminators.
\<close>

definition isLineTerminator :: "char \<Rightarrow> bool" where
  "isLineTerminator c = (of_char c \<in> {10, 13 :: nat})"

fun dotChunks :: "string \<Rightarrow> string list" where
  "dotChunks (a # b # r) =
     (if isLineTerminator a then dotChunks (b # r)
      else if isLineTerminator b then [a] # dotChunks r
      else [a, b] # dotChunks r)"
| "dotChunks [a] = (if isLineTerminator a then [] else [[a]])"
| "dotChunks [] = []"

definition keyDataOf :: "string \<Rightarrow> bytes" where
  "keyDataOf key = map (\<lambda>byte. toUint8 (parseInt16 byte)) (dotChunks key)"

text \<open>\<open>b.toString(16).padStart(2, "0")\<close> and \<open>bufferToHexString\<close>.\<close>

definition hexDigitChar :: "nat \<Rightarrow> char" where
  "hexDigitChar n = (if n < 10 then char_of (48 + n) else char_of (87 + n))"

definition toString16 :: "byte \<Rightarrow> string" where
  "toString16 b =
     (if unat b < 16 then [hexDigitChar (unat b)]
      else [hexDigitChar (unat b div 16), hexDigitChar (unat b mod 16)])"

definition padStart2 :: "string \<Rightarrow> string" where
  "padStart2 s = replicate (2 - length s) CHR ''0'' @ s"

definition bufferToHexString :: "bytes \<Rightarrow> string" where
  "bufferToHexString buffer = concat (map (\<lambda>b. padStart2 (toString16 b)) buffer)"

section \<open>The platform: entropy source and Web Crypto\<close>

text \<open>
  The state the code acts on: the entropy source behind \<open>crypto.getRandomValues\<close> (an
  infinite tape of bytes and a read position) and the sequence of Web Crypto operations
  performed so far, in order.
\<close>

datatype crypto_op = GetRandomValues nat | ImportKey | Encrypt | Decrypt

record world =
  tape :: "nat \<Rightarrow> byte"
  cursor :: nat
  ops :: "crypto_op list"

definition getRandomValues :: "nat \<Rightarrow> world \<Rightarrow> bytes \<times> world" where
  "getRandomValues n w =
     (map (tape w) [cursor w ..< cursor w + n],
      w\<lparr>cursor := cursor w + n, ops := ops w @ [GetRandomValues n]\<rparr>)"

text \<open>
  \<open>crypto.subtle.importKey("raw", keyData, {name: "AES-GCM", ...}, ...)\<close> rejects (with a
  \<open>DataError\<close>, here \<open>None\<close>) key data that is not 128, 192 or 256 bits long.  The imported
  key is represented by its bytes; each function imports its key with exactly the usage
  it then needs.
\<close>

definition importKey :: "bytes \<Rightarrow> world \<Rightarrow> bytes option \<times> world" where
  "importKey keyData w =
     (if length keyData \<in> {16, 24, 32} then Some keyData else None,
      w\<lparr>ops := ops w @ [ImportKey]\<rparr>)"

text \<open>
  The AES-GCM primitive itself is a parameter of the model: \<open>gcm_encrypt key iv plaintext\<close> is
  what \<open>crypto.subtle.encrypt({name: "AES-GCM", iv}, key, plaintext)\<close> resolves to
  (ciphertext followed by the tag), \<open>gcm_decrypt key iv data\<close> what \<open>crypto.subtle.decrypt\<close>
  resolves to; \<open>None\<close> is the \<open>OperationError\<close> they reject with.
\<close>

record aes_gcm =
  gcm_encrypt :: "bytes \<Rightarrow> bytes \<Rightarrow> bytes \<Rightarrow> bytes option"
  gcm_decrypt :: "bytes \<Rightarrow> bytes \<Rightarrow> bytes \<Rightarrow> bytes option"

definition subtle_encrypt :: "aes_gcm \<Rightarrow> bytes \<Rightarrow> bytes \<Rightarrow> bytes \<Rightarrow> world \<Rightarrow> bytes option \<times> world" where
  "subtle_encrypt G cryptoKey iv dat w =
     (gcm_encrypt G cryptoKey iv dat, w\<lparr>ops := ops w @ [Encrypt]\<rparr>)"

definition subtle_decrypt :: "aes_gcm \<Rightarrow> bytes \<Rightarrow> bytes \<Rightarrow> bytes \<Rightarrow> world \<Rightarrow> bytes option \<times> world" where
  "subtle_decrypt G cryptoKey iv dat w =
     (gcm_decrypt G cryptoKey iv dat, w\<lparr>ops := ops w @ [Decrypt]\<rparr>)"

section \<open>Errors\<close>

text \<open>
  Every function of the two modules runs inside \<open>try\<close>/\<open>catch\<close> and rethrows what it
  caught under its own message prefix; \<open>cause\<close> is what was caught, \<open>error\<close> what the caller
  receives.
\<close>

datatype cause =
    NoEncryptedData          \<comment> \<open>"No encrypted data provided"\<close>
  | InvalidBase64Data        \<comment> \<open>"Invalid base64 data"\<close>
  | InvalidBase64Encoding    \<comment> \<open>"Invalid base64 encoding", thrown by \<open>base64ToArrayBuffer\<close>\<close>
  | InvalidCharacterError    \<comment> \<open>thrown by \<open>atob\<close>\<close>
  | DataError                \<comment> \<open>thrown by \<open>importKey\<close>\<close>
  | OperationError           \<comment> \<open>thrown by \<open>crypto.subtle.encrypt\<close> and \<open>decrypt\<close>\<close>
  | TooShort                 \<comment> \<open>"Encrypted data is too short"\<close>

datatype error =
    EncryptDataFailed cause    \<comment> \<open>"Failed to encrypt data: ..."\<close>
  | DecryptDataFailed cause    \<comment> \<open>"Failed to decrypt data. The key may be incorrect: ..."\<close>
  | EncryptImageFailed cause   \<comment> \<open>"Failed to encrypt image: ..."\<close>
  | DecryptImageFailed cause   \<comment> \<open>"Failed to decrypt image: ..."\<close>

section \<open>The file encryption utility\<close>

definition marker :: string where
  "marker = ''base64,''"

definition defaultPrefix :: string where
  "defaultPrefix = ''data:application/octet-stream;base64,''"

text \<open>A value passed where the code expects a string: a string, or anything else.\<close>

datatype jsval = JString string | JOther

definition base64ToArrayBuffer :: "jsval \<Rightarrow> cause + bytes" where
  "base64ToArrayBuffer v =
     (case v of
        JOther \<Rightarrow> Inr []
      | JString base64 \<Rightarrow>
          if base64 = [] then Inr []
          else
            (let base64String =
                   (if includes_str base64 marker then split base64 marker ! 1 else base64)
             in case atob base64String of
                  None \<Rightarrow> Inl InvalidBase64Encoding
                | Some binaryString \<Rightarrow> Inr (map charCodeAt binaryString)))"

definition arrayBufferToBase64 :: "bytes \<Rightarrow> string" where
  "arrayBufferToBase64 buffer = btoa (map fromCharCode buffer)"

definition generateEncryptionKey :: "world \<Rightarrow> string \<times> world" where
  "generateEncryptionKey w = (let (key, w') = getRandomValues 32 w in (bufferToHexString key, w'))"

text \<open>
  The block that opens \<open>encryptData\<close>, \<open>encryptImage\<close> and \<open>decryptImage\<close>:
  \<^verbatim>\<open>let prefix = "", base64Data = data
  if (data.includes("base64,")) { parts = data.split("base64,");
    prefix = parts[0] + "base64,"; base64Data = parts[1] }\<close>
\<close>

definition splitDataUrl :: "string \<Rightarrow> string \<times> string" where
  "splitDataUrl dat =
     (if includes_str dat marker
      then (split dat marker ! 0 @ marker, split dat marker ! 1)
      else ([], dat))"

definition encryptData :: "aes_gcm \<Rightarrow> string \<Rightarrow> string option \<Rightarrow> world \<Rightarrow> (error + string) \<times> world" where
  "encryptData G dat key_option w0 =
     (let (pfx, base64Data) = splitDataUrl dat;
          (key, w1) = (case key_option of
                         Some k \<Rightarrow> if k \<noteq> [] then (k, w0) else generateEncryptionKey w0
                       | None \<Rightarrow> generateEncryptionKey w0);
          keyData = hexStringToBuffer key;
          (imported, w2) = importKey keyData w1
      in case imported of
           None \<Rightarrow> (Inl (EncryptDataFailed DataError), w2)
         | Some cryptoKey \<Rightarrow>
             (let (iv, w3) = getRandomValues 12 w2
              in case base64ToArrayBuffer (JString base64Data) of
                   Inl e \<Rightarrow> (Inl (EncryptDataFailed e), w3)
                 | Inr dataBuffer \<Rightarrow>
                     (let (encrypted, w4) = subtle_encrypt G cryptoKey iv dataBuffer w3
                      in case encrypted of
                           None \<Rightarrow> (Inl (EncryptDataFailed OperationError), w4)
                         | Some encryptedData \<Rightarrow>
                             (Inr (pfx @ arrayBufferToBase64 (iv @ encryptedData)), w4))))"

definition decryptData :: "aes_gcm \<Rightarrow> string \<Rightarrow> string \<Rightarrow> world \<Rightarrow> (error + string) \<times> world" where
  "decryptData G encryptedData key w0 =
     (if encryptedData = [] then (Inl (DecryptDataFailed NoEncryptedData), w0)
      else
        (let (pfx, base64Data) =
               (if includes_str encryptedData marker
                then (split encryptedData marker ! 0 @ marker, split encryptedData marker ! 1)
                else (defaultPrefix, encryptedData))
         in if base64Data = [] \<or> trim base64Data = []
            then (Inl (DecryptDataFailed InvalidBase64Data), w0)
            else
              (let keyData = hexStringToBuffer key;
                   (imported, w1) = importKey keyData w0
               in case imported of
                    None \<Rightarrow> (Inl (DecryptDataFailed DataError), w1)
                  | Some cryptoKey \<Rightarrow>
                      (case base64ToArrayBuffer (JString base64Data) of
                         Inl e \<Rightarrow> (Inl (DecryptDataFailed e), w1)
                       | Inr encryptedArray \<Rightarrow>
                           if length encryptedArray \<le> 12
                           then (Inl (DecryptDataFailed TooShort), w1)
                           else
                             (let iv = take 12 encryptedArray;
                                  encryptedContent = drop 12 encryptedArray;
                                  (decrypted, w2) = subtle_decrypt G cryptoKey iv encryptedContent w1
                              in case decrypted of
                                   None \<Rightarrow> (Inl (DecryptDataFailed OperationError), w2)
                                 | Some decryptedData \<Rightarrow>
                                     (Inr (pfx @ arrayBufferToBase64 decryptedData), w2))))))"

section \<open>The image encryption module (\<open>utils/encryption.ts\<close>)\<close>

definition encryptImage :: "aes_gcm \<Rightarrow> string \<Rightarrow> string \<Rightarrow> world \<Rightarrow> (error + string) \<times> world" where
  "encryptImage G imageData key w0 =
     (let (pfx, base64Data) = splitDataUrl imageData;
          keyData = keyDataOf key;
          (imported, w1) = importKey keyData w0
      in case imported of
           None \<Rightarrow> (Inl (EncryptImageFailed DataError), w1)
         | Some cryptoKey \<Rightarrow>
             (let (iv, w2) = getRandomValues 12 w1
              in case atob base64Data of
                   None \<Rightarrow> (Inl (EncryptImageFailed InvalidCharacterError), w2)
                 | Some binaryString \<Rightarrow>
                     (let bytes = map charCodeAt binaryString;
                          (encrypted, w3) = subtle_encrypt G cryptoKey iv bytes w2
                      in case encrypted of
                           None \<Rightarrow> (Inl (EncryptImageFailed OperationError), w3)
                         | Some encryptedData \<Rightarrow>
                             (Inr (pfx @ btoa (map fromCharCode (iv @ encryptedData))), w3))))"

definition decryptImage :: "aes_gcm \<Rightarrow> string \<Rightarrow> string \<Rightarrow> world \<Rightarrow> (error + string) \<times> world" where
  "decryptImage G encryptedData key w0 =
     (if encryptedData = [] then (Inl (DecryptImageFailed NoEncryptedData), w0)
      else
        (let (pfx, base64Data) = splitDataUrl encryptedData
         in if base64Data = [] \<or> trim base64Data = []
            then (Inl (DecryptImageFailed InvalidBase64Data), w0)
            else
              (let keyData = keyDataOf key;
                   (imported, w1) = importKey keyData w0
               in case imported of
                    None \<Rightarrow> (Inl (DecryptImageFailed DataError), w1)
                  | Some cryptoKey \<Rightarrow>
                      (case atob base64Data of
                         None \<Rightarrow> (Inl (DecryptImageFailed InvalidCharacterError), w1)
                       | Some binaryString \<Rightarrow>
                           (let bytes = map charCodeAt binaryString
                            in if length bytes \<le> 12
                               then (Inl (DecryptImageFailed TooShort), w1)
                               else
                                 (let iv = take 12 bytes;
                                      encryptedContent = drop 12 bytes;
                                      (decrypted, w2) = subtle_decrypt G cryptoKey iv encryptedContent w1
                                  in case decrypted of
                                       None \<Rightarrow> (Inl (DecryptImageFailed OperationError), w2)
                                     | Some decryptedData \<Rightarrow>
                                         (Inr (pfx @ btoa (map fromCharCode decryptedData)), w2)))))))"

section \<open>Auxiliary definitions for the proofs\<close>

text \<open>The six-bit groups that \<open>btoa\<close> encodes, and the padding it appends.\<close>

fun sextets :: "nat list \<Rightarrow> nat list" where
  "sextets (a # b # c # r) =
     [a div 4, (a mod 4) * 16 + b div 16, (b mod 16) * 4 + c div 64, c mod 64] @ sextets r"
| "sextets [a, b] = [a div 4, (a mod 4) * 16 + b div 16, (b mod 16) * 4]"
| "sextets [a] = [a div 4, (a mod 4) * 16]"
| "sextets [] = []"

fun padding :: "nat list \<Rightarrow> string" where
  "padding (a # b # c # r) = padding r"
| "padding [a, b] = ''=''"
| "padding [a] = ''==''"
| "padding [] = []"

text \<open>What a call returned: the string, or nothing when it threw.\<close>

definition returned :: "(error + string) \<times> world \<Rightarrow> string option" where
  "returned r = (case fst r of Inl e \<Rightarrow> None | Inr s \<Rightarrow> Some s)"

text \<open>
  What the theorems below assume of AES-GCM with a 128-bit tag, where they assume anything:
  under a key of valid length and a 96-bit nonce, encryption succeeds, its output is 16
  bytes longer than the plaintext, and decryption under the same key and nonce gives the
  plaintext back.
\<close>

definition gcm_correct :: "aes_gcm \<Rightarrow> bool" where
  "gcm_correct G =
     (\<forall>k iv p. length k \<in> {16, 24, 32} \<longrightarrow> length iv = 12 \<longrightarrow>
        (\<exists>c. gcm_encrypt G k iv p = Some c \<and> length c = length p + 16 \<and>
             gcm_decrypt G k iv c = Some p))"

text \<open>
  Concrete values at which the theorems are instantiated: an instance of the primitive's
  interface with the shape of AES-GCM (it is not a cipher: it appends the first 16 key bytes
  as the tag), an entropy tape, and a key.
\<close>

definition sample_gcm :: aes_gcm where
  "sample_gcm =
     \<lparr>gcm_encrypt = (\<lambda>k iv p. Some (p @ take 16 k)),
      gcm_decrypt = (\<lambda>k iv c.
         if 16 \<le> length c \<and> drop (length c - 16) c = take 16 k
         then Some (take (length c - 16) c) else None)\<rparr>"

definition sample_world :: world where
  "sample_world = \<lparr>tape = (\<lambda>i. of_nat i), cursor = 0, ops = []\<rparr>"

definition sample_key :: string where
  "sample_key = ''000102030405060708090a0b0c0d0e0f101112131415161718191a1b1c1d1e1f''"

section \<open>Facts about the string primitives\<close>

lemma includes_str_sublist: "includes_str s m = sublist m s"
  by (induction s) (auto simp: sublist_Cons_right)

lemma marker_nonempty: "marker \<noteq> []"
  by (simp add: marker_def)

lemma snoc_sep: "sep \<noteq> [] \<Longrightarrow> butlast sep @ last sep # r = sep @ r"
  by (metis append_Cons append_Nil append_assoc append_butlast_last_id)

lemma prefix_short:
  assumes "prefix sep (ys @ zs)" "length sep \<le> length ys"
  shows "prefix sep ys"
  using assms by (auto simp: prefix_append)

lemma split_from_none:
  "sep \<noteq> [] \<Longrightarrow> \<not> sublist sep s \<Longrightarrow> split_from sep seg s = [seg @ s]"
proof (induction s arbitrary: seg)
  case Nil
  then show ?case by simp
next
  case (Cons c cs)
  then have "\<not> prefix sep (c # cs)" "\<not> sublist sep cs"
    by (auto simp: sublist_Cons_right)
  with Cons show ?case by simp
qed

lemma split_from_at:
  "sep \<noteq> [] \<Longrightarrow> \<not> sublist sep (a @ butlast sep) \<Longrightarrow>
   split_from sep seg (a @ sep @ r) = (seg @ a) # split_from sep [] r"
proof (induction a arbitrary: seg)
  case Nil
  then obtain c cs where sep: "sep = c # cs" by (cases sep) auto
  have "split_from sep seg (sep @ r) = seg # split_from sep [] (drop (length sep) (sep @ r))"
    unfolding sep by simp
  then show ?case by simp
next
  case (Cons x a)
  have no: "\<not> prefix sep (x # a @ butlast sep)" "\<not> sublist sep (a @ butlast sep)"
    using Cons.prems(2) by (auto simp: sublist_Cons_right)
  have "\<not> prefix sep (x # a @ sep @ r)"
  proof
    assume "prefix sep (x # a @ sep @ r)"
    then have "prefix sep ((x # a @ butlast sep) @ ([last sep] @ r))"
      using Cons.prems(1) by (simp add: snoc_sep)
    moreover have "length sep \<le> length (x # a @ butlast sep)" by simp
    ultimately have "prefix sep (x # a @ butlast sep)" by (rule prefix_short)
    with no show False by simp
  qed
  then have "split_from sep seg ((x # a) @ sep @ r) = split_from sep (seg @ [x]) (a @ sep @ r)"
    by simp
  also have "\<dots> = ((seg @ [x]) @ a) # split_from sep [] r"
    using Cons.IH [OF Cons.prems(1) no(2)] .
  finally show ?case by simp
qed

lemma first_occurrence:
  "sep \<noteq> [] \<Longrightarrow> sublist sep s \<Longrightarrow>
   \<exists>a r. s = a @ sep @ r \<and> \<not> sublist sep (a @ butlast sep)"
proof (induction s)
  case Nil
  then show ?case by simp
next
  case (Cons c cs)
  show ?case
  proof (cases "prefix sep (c # cs)")
    case True
    then obtain r where "c # cs = sep @ r" by (auto simp: prefix_def)
    moreover have "\<not> sublist sep (butlast sep)"
    proof
      assume "sublist sep (butlast sep)"
      then have "length sep \<le> length (butlast sep)" by (rule sublist_length_le)
      then have "length sep \<le> length sep - 1" by (simp only: length_butlast)
      moreover have "length sep \<noteq> 0" using Cons.prems(1) by simp
      ultimately show False by arith
    qed
    ultimately have "c # cs = [] @ sep @ r \<and> \<not> sublist sep ([] @ butlast sep)" by simp
    then show ?thesis by blast
  next
    case False
    with Cons.prems have "sublist sep cs" by (auto simp: sublist_Cons_right)
    with Cons obtain a r where ar: "cs = a @ sep @ r" "\<not> sublist sep (a @ butlast sep)" by blast
    have "\<not> prefix sep (c # a @ butlast sep)"
    proof
      assume "prefix sep (c # a @ butlast sep)"
      then have "prefix sep ((c # a @ butlast sep) @ ([last sep] @ r))"
        using prefix_prefix by blast
      then show False using False ar(1) Cons.prems(1) by (simp add: snoc_sep)
    qed
    with ar have "c # cs = (c # a) @ sep @ r \<and> \<not> sublist sep ((c # a) @ butlast sep)"
      by (auto simp: sublist_Cons_right)
    then show ?thesis by blast
  qed
qed

section \<open>Facts about base64\<close>

lemma b64val_b64char: "n < 64 \<Longrightarrow> b64val (b64char n) = Some n"
  by (auto simp: b64char_def b64val_def Let_def)

lemma b64char_code: "of_char (b64char n) \<in> {43, 47 :: nat} \<union> {48..57} \<union> {65..90} \<union> {97..122}"
  by (auto simp: b64char_def)

lemma b64char_not_pad: "b64char n \<noteq> CHR ''=''"
  using b64char_code [of n] by (auto dest!: arg_cong [where f = "of_char :: char \<Rightarrow> nat"])

lemma b64char_not_comma: "b64char n \<noteq> CHR '',''"
  using b64char_code [of n] by (auto dest!: arg_cong [where f = "of_char :: char \<Rightarrow> nat"])

lemma b64char_not_space: "\<not> isAsciiWhitespace (b64char n)"
  using b64char_code [of n] by (auto simp: isAsciiWhitespace_def)

lemma b64char_not_jsspace: "\<not> isJsWhiteSpace (b64char n)"
  using b64char_code [of n] by (auto simp: isJsWhiteSpace_def)

lemma b64groups_sextets: "b64groups ns = map b64char (sextets ns) @ padding ns"
  by (induction ns rule: sextets.induct) simp_all

lemma sextets_bound: "\<forall>n \<in> set ns. n < 256 \<Longrightarrow> \<forall>x \<in> set (sextets ns). x < 64"
  by (induction ns rule: sextets.induct) (auto simp: less_mult_imp_div_less)

lemma sextets_length:
  "length (sextets ns) mod 4 = (case padding ns of [] \<Rightarrow> 0 | [_] \<Rightarrow> 3 | _ \<Rightarrow> 2)"
  by (induction ns rule: sextets.induct) simp_all

lemma padding_cases: "padding ns = [] \<or> padding ns = ''='' \<or> padding ns = ''==''"
  by (induction ns rule: padding.induct) simp_all

lemma dm_div: "x < k \<Longrightarrow> (q * k + x) div k = (q::nat)"
  by simp

lemma dm_mod: "x < k \<Longrightarrow> (q * k + x) mod k = (x::nat)"
  by simp

lemma byte_div16: "(b::nat) < 256 \<Longrightarrow> b div 16 < 16"
  by arith

lemma byte_div64: "(c::nat) < 256 \<Longrightarrow> c div 64 < 4"
  by arith

lemma regroup:
  fixes a b c :: nat
  assumes "b < 256" "c < 256"
  shows "a div 4 * 4 + (a mod 4 * 16 + b div 16) div 16 = a"
    "(a mod 4 * 16 + b div 16) mod 16 * 16 + (b mod 16 * 4 + c div 64) div 4 = b"
    "(b mod 16 * 4 + c div 64) mod 4 * 64 + c mod 64 = c"
    "(a mod 4 * 16 + b div 16) mod 16 * 16 + (b mod 16 * 4) div 4 = b"
    "a div 4 * 4 + (a mod 4 * 16) div 16 = a"
  using byte_div16 [OF assms(1)] byte_div64 [OF assms(2)] by (simp_all add: dm_div dm_mod)

lemma sextetsToBytes_sextets:
  "\<forall>n \<in> set ns. n < 256 \<Longrightarrow> sextetsToBytes (sextets ns) = ns"
proof (induction ns rule: sextets.induct)
  case (1 a b c r)
  then have "b < 256" "c < 256" by simp_all
  from regroup(1-3) [OF this] 1 show ?case by simp
next
  case (2 a b)
  then have "b < 256" by simp
  from regroup(1,4) [OF this this] show ?case by simp
next
  case (3 a)
  from regroup(5) [of 0 0 a] show ?case by simp
next
  case 4
  then show ?case by simp
qed

lemma stripPadding_body:
  assumes "\<forall>c \<in> set xs. c \<noteq> CHR ''=''"
  shows "stripPadding xs = xs"
proof (cases xs rule: rev_cases)
  case Nil
  then show ?thesis by (simp add: stripPadding_def)
next
  case (snoc ys y)
  with assms have "y \<noteq> CHR ''=''" by simp
  with snoc show ?thesis by (auto simp: stripPadding_def)
qed

lemma stripPadding_one:
  assumes "\<forall>c \<in> set xs. c \<noteq> CHR ''=''" "length xs mod 4 = 3"
  shows "stripPadding (xs @ ''='') = xs"
proof (cases xs rule: rev_cases)
  case Nil
  with assms show ?thesis by simp
next
  case (snoc ys y)
  with assms have "y \<noteq> CHR ''=''" by simp
  moreover have "length (xs @ ''='') mod 4 = 0" using assms(2) by (simp add: mod_Suc)
  ultimately show ?thesis using snoc by (simp add: stripPadding_def butlast_append)
qed

lemma stripPadding_two:
  assumes "length xs mod 4 = 2"
  shows "stripPadding (xs @ ''=='') = xs"
proof -
  have "length (xs @ ''=='') mod 4 = 0" using assms by (simp add: mod_Suc)
  then show ?thesis by (simp add: stripPadding_def)
qed

lemma stripPadding_b64groups: "stripPadding (b64groups ns) = map b64char (sextets ns)"
proof -
  let ?body = "map b64char (sextets ns)"
  have body: "\<forall>c \<in> set ?body. c \<noteq> CHR ''=''"
    by (simp add: b64char_not_pad)
  consider "padding ns = []" | "padding ns = ''=''" | "padding ns = ''==''"
    using padding_cases by blast
  then show ?thesis
  proof cases
    case 1
    with stripPadding_body [OF body] show ?thesis
      by (simp only: b64groups_sextets append_Nil2)
  next
    case 2
    with sextets_length [of ns] have "length ?body mod 4 = 3" by simp
    from stripPadding_one [OF body this] 2 show ?thesis
      by (simp only: b64groups_sextets)
  next
    case 3
    with sextets_length [of ns] have "length ?body mod 4 = 2" by simp
    from stripPadding_two [OF this] 3 show ?thesis
      by (simp only: b64groups_sextets)
  qed
qed

lemma padding_set: "set (padding ns) \<subseteq> {CHR ''=''}"
  using padding_cases [of ns] by auto

lemma b64groups_chars: "c \<in> set (b64groups ns) \<Longrightarrow> c = CHR ''='' \<or> (\<exists>n. c = b64char n)"
  using padding_set [of ns] by (auto simp: b64groups_sextets)

lemma pad_not_space: "\<not> isAsciiWhitespace CHR ''=''"
  by (simp add: isAsciiWhitespace_def)

lemma b64groups_no_space: "filter (\<lambda>c. \<not> isAsciiWhitespace c) (b64groups ns) = b64groups ns"
  unfolding filter_id_conv using b64groups_chars b64char_not_space pad_not_space by blast

lemma atob_btoa: "atob (btoa s) = Some s"
proof -
  let ?ns = "map of_char s :: nat list"
  have bound: "\<forall>n \<in> set ?ns. n < 256" by simp
  have six: "\<forall>x \<in> set (sextets ?ns). x < 64" using sextets_bound [OF bound] .
  have vals: "map (\<lambda>c. the (b64val c)) (map b64char (sextets ?ns)) = sextets ?ns"
    using six by (simp add: b64val_b64char map_idI)
  have ok: "\<forall>c \<in> set (map b64char (sextets ?ns)). b64val c \<noteq> None"
    using six by (auto simp: b64val_b64char)
  have len: "length (sextets ?ns) mod 4 \<noteq> 1"
    using padding_cases [of ?ns] by (auto simp: sextets_length)
  have "map char_of ?ns = s" by (simp add: map_idI)
  then show ?thesis
    using vals ok len sextetsToBytes_sextets [OF bound]
    by (simp add: atob_def btoa_def b64groups_no_space stripPadding_b64groups Let_def
        del: set_map map_map)
qed

section \<open>Facts about the data-URL split\<close>

lemma split_from_nonempty: "split_from sep seg s \<noteq> []"
  by (induction sep seg s rule: split_from.induct) auto

lemma hd_split_from_none: "sep \<noteq> [] \<Longrightarrow> \<not> sublist sep r \<Longrightarrow> hd (split_from sep [] r) = r"
  by (simp add: split_from_none)

lemma hd_split_from_no_sep:
  assumes "sep \<noteq> []"
  shows "\<not> sublist sep (hd (split_from sep [] r))"
proof (cases "sublist sep r")
  case False
  with assms show ?thesis by (simp add: split_from_none)
next
  case True
  from first_occurrence [OF assms True] obtain a r'
    where r: "r = a @ sep @ r'" and first: "\<not> sublist sep (a @ butlast sep)" by blast
  have "hd (split_from sep [] r) = a"
    unfolding r using split_from_at [OF assms first, of "[]" r'] by simp
  moreover have "\<not> sublist sep a"
    using first by (meson sublist_append sublist_order.dual_order.trans sublist_appendI)
  ultimately show ?thesis by simp
qed

lemma splitDataUrl_no_marker:
  "\<not> sublist marker dat \<Longrightarrow> splitDataUrl dat = ([], dat)"
  by (simp add: splitDataUrl_def includes_str_sublist)

lemma splitDataUrl_at:
  assumes "\<not> sublist marker (a @ butlast marker)"
  shows "splitDataUrl (a @ marker @ r) = (a @ marker, hd (split_from marker [] r))"
proof -
  have "sublist marker (a @ marker @ r)" by (simp add: sublist_def) blast
  moreover have "split (a @ marker @ r) marker = a # split_from marker [] r"
    unfolding split_def using split_from_at [OF marker_nonempty assms, of "[]" r] by simp
  moreover have "split_from marker [] r ! 0 = hd (split_from marker [] r)"
    using split_from_nonempty [of marker "[]" r] by (simp add: hd_conv_nth)
  ultimately show ?thesis
    by (simp add: splitDataUrl_def includes_str_sublist)
qed

lemma splitDataUrl_marker:
  assumes "sublist marker dat"
  shows "\<exists>a r. dat = a @ marker @ r \<and> \<not> sublist marker (a @ butlast marker) \<and>
           splitDataUrl dat = (a @ marker, hd (split_from marker [] r))"
proof -
  from first_occurrence [OF marker_nonempty assms] obtain a r
    where "dat = a @ marker @ r" "\<not> sublist marker (a @ butlast marker)" by blast
  with splitDataUrl_at [of a r] show ?thesis by blast
qed

lemma payload_no_marker: "\<not> sublist marker (snd (splitDataUrl dat))"
proof (cases "sublist marker dat")
  case False
  then show ?thesis by (simp add: splitDataUrl_no_marker)
next
  case True
  from splitDataUrl_marker [OF this] show ?thesis
    using hd_split_from_no_sep [OF marker_nonempty] by auto
qed

lemma atob_empty: "atob [] = Some []"
  by (simp add: atob_def stripPadding_def)

lemma base64ToArrayBuffer_plain:
  assumes "\<not> sublist marker p"
  shows "base64ToArrayBuffer (JString p) =
           (case atob p of None \<Rightarrow> Inl InvalidBase64Encoding
            | Some binaryString \<Rightarrow> Inr (map charCodeAt binaryString))"
  using assms by (cases "p = []") (simp_all add: base64ToArrayBuffer_def includes_str_sublist atob_empty)

section \<open>Facts about hex decoding\<close>

lemma hexPairs_length: "2 * length (hexPairs s) \<le> length s"
  by (induction s rule: hexPairs.induct) auto

lemma hexPairs_exact:
  "2 * length (hexPairs s) = length s \<longleftrightarrow> even (length s) \<and> (\<forall>c \<in> set s. isHexDigit c)"
proof (induction s rule: hexPairs.induct)
  case (1 a b r)
  show ?case
  proof (cases "isHexDigit a \<and> isHexDigit b")
    case True
    with 1 show ?thesis by auto
  next
    case False
    moreover have "2 * length (hexPairs (b # r)) \<le> length (b # r)" by (rule hexPairs_length)
    ultimately show ?thesis by auto
  qed
qed auto

lemma hexDigit_not_special:
  assumes "isHexDigit c"
  shows "\<not> isJsWhiteSpace c" "\<not> isLineTerminator c" "c \<noteq> CHR ''+''" "c \<noteq> CHR ''-''"
    "c \<noteq> CHR ''x''" "c \<noteq> CHR ''X''"
  using assms by (auto simp: isHexDigit_def isJsWhiteSpace_def isLineTerminator_def Let_def)

lemma parseInt16_pair:
  assumes "isHexDigit a" "isHexDigit b"
  shows "parseInt16 [a, b] = Some (int (16 * hexDigitValue a + hexDigitValue b))"
  using assms hexDigit_not_special [OF assms(1)] hexDigit_not_special [OF assms(2)]
  by (simp add: parseInt16_def)

lemma dotChunks_hexPairs:
  "even (length s) \<Longrightarrow> \<forall>c \<in> set s. isHexDigit c \<Longrightarrow> dotChunks s = hexPairs s"
  by (induction s rule: hexPairs.induct) (auto simp: hexDigit_not_special)

lemma keyDataOf_hex:
  "even (length s) \<Longrightarrow> \<forall>c \<in> set s. isHexDigit c \<Longrightarrow> keyDataOf s = hexStringToBuffer s"
  by (simp add: keyDataOf_def hexStringToBuffer_def dotChunks_hexPairs)

lemma hexDigitChar_hex:
  assumes "n < 16"
  shows "isHexDigit (hexDigitChar n)" "hexDigitValue (hexDigitChar n) = n"
  using assms by (auto simp: isHexDigit_def hexDigitValue_def hexDigitChar_def Let_def)

lemma char_of_48: "char_of (48 :: nat) = CHR ''0''"
  by (simp add: char_of_eq_iff take_bit_eq_mod)

lemma padStart2_toString16:
  "padStart2 (toString16 b) = [hexDigitChar (unat b div 16), hexDigitChar (unat b mod 16)]"
  by (auto simp: padStart2_def toString16_def hexDigitChar_def char_of_48)

lemma unat_byte_bound: "unat (b :: byte) < 256"
  using unsigned_less [of b, where ?'a = nat] by simp

lemma byte_of_digits:
  "toUint8 (parseInt16 [hexDigitChar (unat b div 16), hexDigitChar (unat b mod 16)]) = (b :: byte)"
proof -
  have hi: "unat b div 16 < 16" using unat_byte_bound [of b] by arith
  have lo: "unat b mod 16 < 16" by simp
  have "parseInt16 [hexDigitChar (unat b div 16), hexDigitChar (unat b mod 16)] =
          Some (int (16 * (unat b div 16) + unat b mod 16))"
    using parseInt16_pair [OF hexDigitChar_hex(1) [OF hi] hexDigitChar_hex(1) [OF lo]]
    by (simp only: hexDigitChar_hex(2) [OF hi] hexDigitChar_hex(2) [OF lo])
  moreover have "16 * (unat b div 16) + unat b mod 16 = unat b" by simp
  ultimately show ?thesis by (simp add: toUint8_def)
qed

lemma hexPairs_bufferToHexString:
  "hexPairs (bufferToHexString bs) = map (\<lambda>b. padStart2 (toString16 b)) bs"
proof (induction bs)
  case Nil
  then show ?case by (simp add: bufferToHexString_def)
next
  case (Cons b bs)
  have hi: "unat b div 16 < 16" using unat_byte_bound [of b] by arith
  have lo: "unat b mod 16 < 16" by simp
  from Cons show ?case
    by (simp add: bufferToHexString_def padStart2_toString16
        hexDigitChar_hex(1) [OF hi] hexDigitChar_hex(1) [OF lo])
qed

lemma hexStringToBuffer_bufferToHexString: "hexStringToBuffer (bufferToHexString bs) = bs"
  by (simp add: hexStringToBuffer_def hexPairs_bufferToHexString padStart2_toString16
      byte_of_digits map_idI comp_def)

lemma bufferToHexString_length: "length (bufferToHexString bs) = 2 * length bs"
  by (induction bs) (simp_all add: bufferToHexString_def padStart2_toString16)

lemma bufferToHexString_hex: "c \<in> set (bufferToHexString bs) \<Longrightarrow> isHexDigit c"
proof (induction bs)
  case Nil
  then show ?case by (simp add: bufferToHexString_def)
next
  case (Cons b bs)
  have hi: "unat b div 16 < 16" using unat_byte_bound [of b] by arith
  have lo: "unat b mod 16 < 16" by simp
  from Cons show ?case
    using hexDigitChar_hex(1) [OF hi] hexDigitChar_hex(1) [OF lo]
    by (auto simp: bufferToHexString_def padStart2_toString16)
qed

lemma keyDataOf_bufferToHexString: "keyDataOf (bufferToHexString bs) = bs"
  using keyDataOf_hex [of "bufferToHexString bs"] bufferToHexString_hex [of _ bs]
  by (simp add: bufferToHexString_length hexStringToBuffer_bufferToHexString)

lemma charCodeAt_fromCharCode: "charCodeAt (fromCharCode b) = b"
  using unat_byte_bound [of b] by (simp add: charCodeAt_def fromCharCode_def)

lemma fromCharCode_charCodeAt: "fromCharCode (charCodeAt c) = c"
  by (simp add: charCodeAt_def fromCharCode_def unat_of_nat)


lemma binary_of_bytes: "map fromCharCode (map charCodeAt s) = s"
  by (simp add: fromCharCode_charCodeAt map_idI comp_def)

section \<open>The four functions in normal form\<close>

lemma trim_empty: "trim [] = []"
  by (simp add: trim_def)

lemma decryptData_unfold:
  "decryptData G e key w =
     (if e = [] then (Inl (DecryptDataFailed NoEncryptedData), w)
      else if trim (snd (splitDataUrl e)) = [] then (Inl (DecryptDataFailed InvalidBase64Data), w)
      else if length (hexStringToBuffer key) \<notin> {16, 24, 32}
        then (Inl (DecryptDataFailed DataError), w\<lparr>ops := ops w @ [ImportKey]\<rparr>)
      else (case atob (snd (splitDataUrl e)) of
          None \<Rightarrow> (Inl (DecryptDataFailed InvalidBase64Encoding), w\<lparr>ops := ops w @ [ImportKey]\<rparr>)
        | Some bin \<Rightarrow>
            if length bin \<le> 12
            then (Inl (DecryptDataFailed TooShort), w\<lparr>ops := ops w @ [ImportKey]\<rparr>)
            else (case gcm_decrypt G (hexStringToBuffer key) (take 12 (map charCodeAt bin))
                         (drop 12 (map charCodeAt bin)) of
                None \<Rightarrow> (Inl (DecryptDataFailed OperationError),
                           w\<lparr>ops := ops w @ [ImportKey, Decrypt]\<rparr>)
              | Some d \<Rightarrow>
                  (Inr ((if includes_str e marker then fst (splitDataUrl e) else defaultPrefix)
                        @ btoa (map fromCharCode d)),
                   w\<lparr>ops := ops w @ [ImportKey, Decrypt]\<rparr>))))"
proof -
  let ?p = "snd (splitDataUrl e)"
  have split_eq: "(if includes_str e marker
          then (split e marker ! 0 @ marker, split e marker ! 1) else (defaultPrefix, e)) =
        (if includes_str e marker then fst (splitDataUrl e) else defaultPrefix, ?p)"
    by (simp add: splitDataUrl_def)
  have blank: "(?p = [] \<or> trim ?p = []) = (trim ?p = [])"
    using trim_empty by auto
  show ?thesis
    unfolding decryptData_def split_eq
    by (simp add: blank base64ToArrayBuffer_plain [OF payload_no_marker] importKey_def
        subtle_decrypt_def arrayBufferToBase64_def Let_def
        split: option.splits)
qed


lemma decryptImage_unfold:
  "decryptImage G e key w =
     (if e = [] then (Inl (DecryptImageFailed NoEncryptedData), w)
      else if trim (snd (splitDataUrl e)) = [] then (Inl (DecryptImageFailed InvalidBase64Data), w)
      else if length (keyDataOf key) \<notin> {16, 24, 32}
        then (Inl (DecryptImageFailed DataError), w\<lparr>ops := ops w @ [ImportKey]\<rparr>)
      else (case atob (snd (splitDataUrl e)) of
          None \<Rightarrow> (Inl (DecryptImageFailed InvalidCharacterError), w\<lparr>ops := ops w @ [ImportKey]\<rparr>)
        | Some bin \<Rightarrow>
            if length bin \<le> 12
            then (Inl (DecryptImageFailed TooShort), w\<lparr>ops := ops w @ [ImportKey]\<rparr>)
            else (case gcm_decrypt G (keyDataOf key) (take 12 (map charCodeAt bin))
                         (drop 12 (map charCodeAt bin)) of
                None \<Rightarrow> (Inl (DecryptImageFailed OperationError),
                           w\<lparr>ops := ops w @ [ImportKey, Decrypt]\<rparr>)
              | Some d \<Rightarrow>
                  (Inr (fst (splitDataUrl e) @ btoa (map fromCharCode d)),
                   w\<lparr>ops := ops w @ [ImportKey, Decrypt]\<rparr>))))"
proof -
  let ?p = "snd (splitDataUrl e)"
  have blank: "(?p = [] \<or> trim ?p = []) = (trim ?p = [])"
    using trim_empty by auto
  show ?thesis
    unfolding decryptImage_def
    by (simp add: blank importKey_def subtle_decrypt_def Let_def split_beta
        split: option.splits)
qed

lemma encryptData_unfold:
  assumes "key \<noteq> []"
  shows "encryptData G dat (Some key) w =
     (if length (hexStringToBuffer key) \<notin> {16, 24, 32}
        then (Inl (EncryptDataFailed DataError), w\<lparr>ops := ops w @ [ImportKey]\<rparr>)
      else (case atob (snd (splitDataUrl dat)) of
          None \<Rightarrow> (Inl (EncryptDataFailed InvalidBase64Encoding),
                     w\<lparr>cursor := cursor w + 12, ops := ops w @ [ImportKey, GetRandomValues 12]\<rparr>)
        | Some bin \<Rightarrow>
            (case gcm_encrypt G (hexStringToBuffer key) (fst (getRandomValues 12 w))
                     (map charCodeAt bin) of
                None \<Rightarrow> (Inl (EncryptDataFailed OperationError),
                    w\<lparr>cursor := cursor w + 12,
                      ops := ops w @ [ImportKey, GetRandomValues 12, Encrypt]\<rparr>)
              | Some c \<Rightarrow>
                  (Inr (fst (splitDataUrl dat)
                        @ btoa (map fromCharCode (fst (getRandomValues 12 w) @ c))),
                   w\<lparr>cursor := cursor w + 12,
                     ops := ops w @ [ImportKey, GetRandomValues 12, Encrypt]\<rparr>))))"
  unfolding encryptData_def using assms
  by (simp add: base64ToArrayBuffer_plain [OF payload_no_marker] importKey_def
      subtle_encrypt_def getRandomValues_def arrayBufferToBase64_def Let_def split_beta
      split: option.splits)

lemma encryptImage_unfold:
  "encryptImage G dat key w =
     (if length (keyDataOf key) \<notin> {16, 24, 32}
        then (Inl (EncryptImageFailed DataError), w\<lparr>ops := ops w @ [ImportKey]\<rparr>)
      else (case atob (snd (splitDataUrl dat)) of
          None \<Rightarrow> (Inl (EncryptImageFailed InvalidCharacterError),
                     w\<lparr>cursor := cursor w + 12, ops := ops w @ [ImportKey, GetRandomValues 12]\<rparr>)
        | Some bin \<Rightarrow>
            (case gcm_encrypt G (keyDataOf key) (fst (getRandomValues 12 w))
                     (map charCodeAt bin) of
                None \<Rightarrow> (Inl (EncryptImageFailed OperationError),
                    w\<lparr>cursor := cursor w + 12,
                      ops := ops w @ [ImportKey, GetRandomValues 12, Encrypt]\<rparr>)
              | Some c \<Rightarrow>
                  (Inr (fst (splitDataUrl dat)
                        @ btoa (map fromCharCode (fst (getRandomValues 12 w) @ c))),
                   w\<lparr>cursor := cursor w + 12,
                     ops := ops w @ [ImportKey, GetRandomValues 12, Encrypt]\<rparr>))))"
  unfolding encryptImage_def
  by (simp add: importKey_def subtle_encrypt_def getRandomValues_def Let_def split_beta
      split: option.splits)

lemma generated_key:
  "fst (generateEncryptionKey w) = bufferToHexString (fst (getRandomValues 32 w))"
  "snd (generateEncryptionKey w) = w\<lparr>cursor := cursor w + 32, ops := ops w @ [GetRandomValues 32]\<rparr>"
  "length (fst (getRandomValues n w)) = n"
  by (simp_all add: generateEncryptionKey_def getRandomValues_def split_beta)

lemma generated_key_length: "length (fst (generateEncryptionKey w)) = 64"
  by (simp add: generated_key bufferToHexString_length)

lemma encryptData_generated:
  assumes "key_option = None \<or> key_option = Some []"
  shows "encryptData G dat key_option w =
           encryptData G dat (Some (fst (generateEncryptionKey w))) (snd (generateEncryptionKey w))"
proof -
  have "fst (generateEncryptionKey w) \<noteq> []"
    using generated_key_length [of w] by auto
  then show ?thesis
    using assms unfolding encryptData_def
    by (auto simp: split_beta cong: option.case_cong sum.case_cong)
qed

section \<open>Claims about the codec\<close>

text \<open>
  C9 (the code departs from the claim).  The claim: when the input contains \<open>base64,\<close> the
  payload is the entire remainder of the input after the first marker.  The code takes
  \<open>parts[1]\<close> of \<open>split("base64,")\<close>, which ends at the next marker: on an input with a second
  marker everything from that marker on is dropped, and the truncated payload is what gets
  encrypted.  Evaluated here on \<open>data:text/plain;base64,QUJDbase64,QUJE\<close>, whose remainder
  after the first marker is \<open>QUJDbase64,QUJE\<close>.
\<close>

theorem splitDataUrl_second_marker:
  "splitDataUrl ''data:text/plain;base64,QUJDbase64,QUJE'' = (''data:text/plain;base64,'', ''QUJD'')"
  by (simp add: splitDataUrl_def split_def marker_def)

text \<open>
  C7 (counterexample).  The claim: an empty or non-string input to a decode operation fails
  and never yields an empty byte sequence.  On the empty string \<open>base64ToArrayBuffer\<close> and
  \<open>hexStringToBuffer\<close> both return the empty byte sequence.
\<close>

theorem decode_empty_counterexample:
  "base64ToArrayBuffer (JString []) = Inr [] \<and> hexStringToBuffer [] = []"
  by (simp add: base64ToArrayBuffer_def hexStringToBuffer_def)

text \<open>
  C7 (amended).  No decode operation fails on empty input: \<open>base64ToArrayBuffer\<close> returns the
  empty byte sequence for a non-string value and for the empty string (its first guard),
  \<open>hexStringToBuffer\<close> and the key decoding of the image module return the empty byte
  sequence for the empty string, and \<open>atob\<close> decodes the empty string to the empty string.
\<close>

theorem decode_empty_returns_empty:
  "base64ToArrayBuffer JOther = Inr [] \<and> base64ToArrayBuffer (JString []) = Inr [] \<and>
   hexStringToBuffer [] = [] \<and> keyDataOf [] = [] \<and> atob [] = Some []"
  by (simp add: base64ToArrayBuffer_def hexStringToBuffer_def keyDataOf_def atob_empty)

text \<open>
  C6 (counterexample).  The claim: hex decoding fails on a string of odd length or with a
  non-hex character.  \<open>hexStringToBuffer\<close> returns bytes on both kinds of input, passing over
  the characters that do not pair up; the key decoding of the image module turns a chunk
  without a leading hex digit into the byte 0.
\<close>

theorem hexStringToBuffer_counterexample:
  "hexStringToBuffer ''abc'' = [0xab] \<and> hexStringToBuffer ''0g12'' = [0x12] \<and>
   keyDataOf ''0g12'' = [0, 0x12]"
  by (simp add: hexStringToBuffer_def keyDataOf_def isHexDigit_def parseInt16_def
      isJsWhiteSpace_def isLineTerminator_def hexDigitValue_def toUint8_def)

text \<open>
  C6 (amended).  \<open>hexStringToBuffer\<close> never fails.  It returns one byte for each pair of hex
  digits its scan finds, so never more than half as many bytes as the string has characters,
  and exactly half as many precisely when the string has even length and only hex digits:
  on a string of odd length or with a non-hex character it silently returns fewer bytes.
\<close>

theorem hexStringToBuffer_lenient:
  "2 * length (hexStringToBuffer s) \<le> length s \<and>
   (2 * length (hexStringToBuffer s) = length s \<longleftrightarrow>
      even (length s) \<and> (\<forall>c \<in> set s. isHexDigit c))"
  by (simp add: hexStringToBuffer_def hexPairs_length hexPairs_exact)

theorem hexStringToBuffer_lenient_witness:
  "2 * length (hexStringToBuffer ''00ff'') = length ''00ff'' \<and>
   2 * length (hexStringToBuffer ''0g12'') < length ''0g12''"
  using hexStringToBuffer_lenient [of "''00ff''"] hexStringToBuffer_lenient [of "''0g12''"]
  by (simp add: isHexDigit_def)

section \<open>Claims about failures\<close>

lemma sample_key_bytes: "length (hexStringToBuffer sample_key) = 32"
  by (simp add: sample_key_def hexStringToBuffer_def isHexDigit_def)

lemma sample_key_hex: "even (length sample_key) \<and> (\<forall>c \<in> set sample_key. isHexDigit c)"
  by (simp add: sample_key_def isHexDigit_def)

lemma sample_keyData: "length (keyDataOf sample_key) = 32"
  using sample_key_hex by (simp add: keyDataOf_hex sample_key_bytes)

lemma sample_key_nonempty: "sample_key \<noteq> []"
  by (simp add: sample_key_def)


text \<open>
  C5 (counterexample).  The claim: whenever the payload decodes to fewer than 13 bytes,
  decryption fails with "too short".  The payload of \<open>data:image/png;base64,\<close> is empty and
  decodes to no bytes, and \<open>decryptData\<close> rejects it with "Invalid base64 data", at the guard
  that precedes decoding.
\<close>

theorem decrypt_empty_payload_counterexample:
  "atob (snd (splitDataUrl ''data:image/png;base64,'')) = Some [] \<and>
   fst (decryptData sample_gcm ''data:image/png;base64,'' sample_key sample_world)
     = Inl (DecryptDataFailed InvalidBase64Data)"
proof -
  have "splitDataUrl ''data:image/png;base64,'' = (''data:image/png;base64,'', [])"
    by (simp add: splitDataUrl_def split_def marker_def)
  then show ?thesis
    by (simp add: decryptData_unfold atob_empty trim_empty)
qed

text \<open>
  C5 (amended).  When the payload decodes to fewer than 13 bytes, decryption always fails,
  in both modules and whatever the key: with "Encrypted data is too short" when the payload
  is not blank and the key decodes to 16, 24 or 32 bytes; at key import when the key decodes
  to any other length; and with "Invalid base64 data" ("No encrypted data provided" for the
  empty input) when the payload is empty or blank.
\<close>

theorem decrypt_short_payload:
  assumes "atob (snd (splitDataUrl e)) = Some bin" and "length bin < 13"
  shows "fst (decryptData G e key w) = Inl (DecryptDataFailed
            (if e = [] then NoEncryptedData
             else if trim (snd (splitDataUrl e)) = [] then InvalidBase64Data
             else if length (hexStringToBuffer key) \<notin> {16, 24, 32} then DataError
             else TooShort)) \<and>
         fst (decryptImage G e key w) = Inl (DecryptImageFailed
            (if e = [] then NoEncryptedData
             else if trim (snd (splitDataUrl e)) = [] then InvalidBase64Data
             else if length (keyDataOf key) \<notin> {16, 24, 32} then DataError
             else TooShort))"
  using assms by (simp add: decryptData_unfold decryptImage_unfold)

theorem decrypt_short_payload_witness:
  "fst (decryptData sample_gcm ''AAAA'' sample_key sample_world) = Inl (DecryptDataFailed TooShort) \<and>
   fst (decryptImage sample_gcm ''AAAA'' sample_key sample_world) = Inl (DecryptImageFailed TooShort)"
proof -
  have no: "\<not> sublist marker ''AAAA''"
    by (simp add: includes_str_sublist [symmetric] marker_def)
  have p: "snd (splitDataUrl ''AAAA'') = ''AAAA''"
    using no by (simp add: splitDataUrl_no_marker)
  have a: "atob (snd (splitDataUrl ''AAAA'')) = Some [CHR 0x00, CHR 0x00, CHR 0x00]"
    unfolding p by (simp add: atob_def stripPadding_def isAsciiWhitespace_def b64val_def char_of_eq_iff)
  have t: "trim ''AAAA'' \<noteq> []"
    by (simp add: trim_def isJsWhiteSpace_def)
  show ?thesis
    using decrypt_short_payload [OF a, of sample_gcm sample_key sample_world] t
    by (simp add: p sample_key_bytes sample_keyData)
qed




section \<open>Facts about what the functions return\<close>

lemma btoa_chars: "c \<in> set (btoa s) \<Longrightarrow> c = CHR ''='' \<or> (\<exists>n. c = b64char n)"
  unfolding btoa_def by (rule b64groups_chars)

lemma b64char_not_colon: "b64char n \<noteq> CHR '':''"
  using b64char_code [of n] by (auto dest!: arg_cong [where f = "of_char :: char \<Rightarrow> nat"])

lemma btoa_no_comma: "CHR '','' \<notin> set (btoa s)"
proof
  assume "CHR '','' \<in> set (btoa s)"
  then have "CHR '','' = CHR ''='' \<or> (\<exists>n. CHR '','' = b64char n)" by (rule btoa_chars)
  then obtain n where "CHR '','' = b64char n" by auto
  with b64char_not_comma [of n] show False by simp
qed

lemma btoa_no_colon: "CHR '':'' \<notin> set (btoa s)"
proof
  assume "CHR '':'' \<in> set (btoa s)"
  then have "CHR '':'' = CHR ''='' \<or> (\<exists>n. CHR '':'' = b64char n)" by (rule btoa_chars)
  then obtain n where "CHR '':'' = b64char n" by auto
  with b64char_not_colon [of n] show False by simp
qed

lemma btoa_no_marker: "\<not> sublist marker (btoa s)"
proof
  assume "sublist marker (btoa s)"
  then have "set marker \<subseteq> set (btoa s)" by (rule set_mono_sublist)
  then have "CHR '','' \<in> set (btoa s)" by (auto simp: marker_def)
  with btoa_no_comma show False by simp
qed

lemma btoa_no_defaultPrefix: "\<not> prefix defaultPrefix (btoa s)"
proof
  assume "prefix defaultPrefix (btoa s)"
  then have "set defaultPrefix \<subseteq> set (btoa s)" by (rule set_mono_prefix)
  then have "CHR '':'' \<in> set (btoa s)" by (auto simp: defaultPrefix_def)
  with btoa_no_colon show False by simp
qed

lemma btoa_inj: "btoa a = btoa b \<Longrightarrow> a = b"
  by (metis atob_btoa option.inject)

lemma btoa_empty: "btoa [] = []"
  by (simp add: btoa_def)

lemma btoa_nonempty: "s \<noteq> [] \<Longrightarrow> btoa s \<noteq> []"
  using btoa_inj [of s "[]"] btoa_empty by metis

lemma trim_no_space: "\<forall>c \<in> set s. \<not> isJsWhiteSpace c \<Longrightarrow> trim s = s"
proof (cases s rule: rev_cases)
  case Nil
  then show ?thesis by (simp add: trim_def)
next
  case (snoc ys y)
  assume a: "\<forall>c \<in> set s. \<not> isJsWhiteSpace c"
  then have "dropWhile isJsWhiteSpace s = s" by (cases s) auto
  moreover have "dropWhile isJsWhiteSpace (rev s) = rev s" using a snoc by auto
  ultimately show ?thesis by (simp add: trim_def)
qed

lemma pad_not_jsspace: "\<not> isJsWhiteSpace CHR ''=''"
  by (simp add: isJsWhiteSpace_def)

lemma trim_btoa: "trim (btoa s) = btoa s"
  using btoa_chars b64char_not_jsspace pad_not_jsspace by (intro trim_no_space) blast

lemma encryptData_out:
  assumes "fst (encryptData G dat key_option w) = Inr out"
  shows "\<exists>bs. out = fst (splitDataUrl dat) @ btoa bs"
proof -
  have given: "\<exists>bs. out = fst (splitDataUrl dat) @ btoa bs"
    if "key \<noteq> []" "fst (encryptData G dat (Some key) w') = Inr out" for key w'
    using that by (auto simp: encryptData_unfold split: if_splits option.splits)
  show ?thesis
  proof (cases "key_option = None \<or> key_option = Some []")
    case True
    have "fst (generateEncryptionKey w) \<noteq> []"
      using generated_key_length [of w] by auto
    from given [OF this] assms show ?thesis
      by (simp add: encryptData_generated [OF True])
  next
    case False
    then obtain key where "key_option = Some key" "key \<noteq> []" by (cases key_option) auto
    with given assms show ?thesis by blast
  qed
qed

lemma encryptImage_out:
  assumes "fst (encryptImage G dat key w) = Inr out"
  shows "\<exists>bs. out = fst (splitDataUrl dat) @ btoa bs"
  using assms by (auto simp: encryptImage_unfold split: if_splits option.splits)

lemma decryptData_out:
  assumes "fst (decryptData G dat key w) = Inr out"
  shows "\<exists>bs. out = (if includes_str dat marker then fst (splitDataUrl dat) else defaultPrefix) @ btoa bs"
  using assms by (auto simp: decryptData_unfold split: if_splits option.splits)

lemma decryptImage_out:
  assumes "fst (decryptImage G dat key w) = Inr out"
  shows "\<exists>bs. out = fst (splitDataUrl dat) @ btoa bs"
  using assms by (auto simp: decryptImage_unfold split: if_splits option.splits)

lemma plain_prefix: "\<not> includes_str dat marker \<Longrightarrow> fst (splitDataUrl dat) = []"
  by (simp add: splitDataUrl_def)

lemma lowercase_hex: "c \<in> set ''0123456789abcdef'' \<Longrightarrow> isHexDigit c"
  by (auto simp: isHexDigit_def)


lemma bytes_of_binary_comp: "map (charCodeAt \<circ> fromCharCode) bs = bs"
  by (simp add: charCodeAt_fromCharCode map_idI)

lemma binary_of_bytes_comp: "map (fromCharCode \<circ> charCodeAt) s = s"
  by (simp add: fromCharCode_charCodeAt map_idI)

lemma split_framed:
  assumes "pre = [] \<or> (\<exists>a. pre = a @ marker \<and> \<not> includes_str (a @ butlast marker) marker)"
  shows "splitDataUrl (pre @ btoa x) = (pre, btoa x)"
    and "includes_str (pre @ btoa x) marker \<longleftrightarrow> pre \<noteq> []"
proof -
  show "splitDataUrl (pre @ btoa x) = (pre, btoa x)"
  proof (cases "pre = []")
    case True
    then show ?thesis by (simp add: splitDataUrl_no_marker btoa_no_marker)
  next
    case False
    with assms obtain a where a: "pre = a @ marker" "\<not> sublist marker (a @ butlast marker)"
      by (auto simp: includes_str_sublist)
    from splitDataUrl_at [OF a(2), of "btoa x"] show ?thesis
      by (simp add: a(1) hd_split_from_none [OF marker_nonempty btoa_no_marker])
  qed
  show "includes_str (pre @ btoa x) marker \<longleftrightarrow> pre \<noteq> []"
  proof (cases "pre = []")
    case True
    then show ?thesis by (simp add: includes_str_sublist btoa_no_marker)
  next
    case False
    with assms obtain a where "pre = a @ marker" by auto
    then have "sublist marker (pre @ btoa x)" by (auto simp: sublist_def)
    with False show ?thesis by (simp add: includes_str_sublist)
  qed
qed

section \<open>Round trip of any payload that decodes\<close>

lemma stripPadding_keeps:
  assumes "c \<in> set d" "c \<noteq> CHR ''=''"
  shows "c \<in> set (stripPadding d)"
proof -
  have two: "c \<in> set (take (length d - 2) d)" if "drop (length d - 2) d = ''==''"
  proof -
    have "set d = set (take (length d - 2) d) \<union> set (drop (length d - 2) d)"
      by (metis append_take_drop_id set_append)
    with assms that show ?thesis by auto
  qed
  have one: "c \<in> set (butlast d)" if "d \<noteq> []" "last d = CHR ''=''"
  proof -
    have "set d = set (butlast d) \<union> {last d}"
      using that(1) by (metis append_butlast_last_id set_append list.set(1,2) Un_insert_right
          sup_bot.right_neutral)
    with assms that show ?thesis by auto
  qed
  have "d \<noteq> []" using assms(1) by auto
  with one have "last d = CHR ''='' \<Longrightarrow> c \<in> set (butlast d)" by simp
  with assms(1) two show ?thesis by (auto simp: stripPadding_def)
qed

lemma atob_accepts:
  assumes "atob p = Some bin" "c \<in> set p"
  shows "isAsciiWhitespace c \<or> c = CHR ''='' \<or> b64val c \<noteq> None"
proof (cases "isAsciiWhitespace c \<or> c = CHR ''=''")
  case True
  then show ?thesis by blast
next
  case False
  with assms(2) have "c \<in> set (filter (\<lambda>c. \<not> isAsciiWhitespace c) p)" by simp
  with False have "c \<in> set (stripPadding (filter (\<lambda>c. \<not> isAsciiWhitespace c) p))"
    by (simp add: stripPadding_keeps)
  with assms(1) show ?thesis
    by (auto simp: atob_def Let_def split: if_splits)
qed

lemma atob_no_marker:
  assumes "atob p = Some bin"
  shows "\<not> sublist marker p"
proof
  assume "sublist marker p"
  then have "set marker \<subseteq> set p" by (rule set_mono_sublist)
  then have "CHR '','' \<in> set p" by (auto simp: marker_def)
  from atob_accepts [OF assms this] show False
    by (simp add: isAsciiWhitespace_def b64val_def)
qed

lemma split_payload:
  assumes "pre = [] \<or> (\<exists>a. pre = a @ marker \<and> \<not> includes_str (a @ butlast marker) marker)"
    and "\<not> sublist marker payload"
  shows "splitDataUrl (pre @ payload) = (pre, payload)"
    and "includes_str (pre @ payload) marker \<longleftrightarrow> pre \<noteq> []"
proof -
  show "splitDataUrl (pre @ payload) = (pre, payload)"
  proof (cases "pre = []")
    case True
    with assms(2) show ?thesis by (simp add: splitDataUrl_no_marker)
  next
    case False
    with assms(1) obtain a where a: "pre = a @ marker" "\<not> sublist marker (a @ butlast marker)"
      by (auto simp: includes_str_sublist)
    from splitDataUrl_at [OF a(2), of payload] show ?thesis
      by (simp add: a(1) hd_split_from_none [OF marker_nonempty assms(2)])
  qed
  show "includes_str (pre @ payload) marker \<longleftrightarrow> pre \<noteq> []"
  proof (cases "pre = []")
    case True
    with assms(2) show ?thesis by (simp add: includes_str_sublist)
  next
    case False
    with assms(1) obtain a where "pre = a @ marker" by auto
    then have "sublist marker (pre @ payload)" by (auto simp: sublist_def)
    with False show ?thesis by (simp add: includes_str_sublist)
  qed
qed

lemma round_trip_decoded:
  assumes "gcm_correct G"
    and "K = fst (generateEncryptionKey w0)"
    and "pre = [] \<or> (\<exists>a. pre = a @ marker \<and> \<not> includes_str (a @ butlast marker) marker)"
    and "atob payload = Some bin"
  shows "(\<exists>blob w'. encryptData G (pre @ payload) (Some K) w = (Inr blob, w') \<and>
            (\<forall>w''. fst (decryptData G blob K w'')
                     = Inr ((if pre = [] then defaultPrefix else pre) @ btoa bin))) \<and>
         (\<exists>blob w'. encryptImage G (pre @ payload) K w = (Inr blob, w') \<and>
            (\<forall>w''. fst (decryptImage G blob K w'') = Inr (pre @ btoa bin)))"
proof -
  let ?kb = "fst (getRandomValues 32 w0)"
  let ?iv = "fst (getRandomValues 12 w)"
  let ?p = "map charCodeAt bin"
  have K: "K = bufferToHexString ?kb" by (simp add: assms(2) generated_key(1))
  have kd: "hexStringToBuffer K = ?kb" "keyDataOf K = ?kb"
    by (simp_all add: K hexStringToBuffer_bufferToHexString keyDataOf_bufferToHexString)
  have klen: "length ?kb = 32" by (simp add: generated_key(3))
  have Kne: "K \<noteq> []" using generated_key_length [of w0] assms(2) by auto
  have ivlen: "length ?iv = 12" by (simp add: generated_key(3))
  from assms(1) klen ivlen obtain c where
    c: "gcm_encrypt G ?kb ?iv ?p = Some c" "length c = length ?p + 16"
       "gcm_decrypt G ?kb ?iv c = Some ?p"
    unfolding gcm_correct_def by (metis insertCI)
  let ?framed = "map fromCharCode (?iv @ c)"
  let ?blob = "pre @ btoa ?framed"
  have ne: "?framed \<noteq> []" using ivlen by auto
  have blob_ne: "?blob \<noteq> []" using btoa_nonempty [OF ne] by simp
  have not_blank: "trim (btoa ?framed) \<noteq> []"
    using btoa_nonempty [OF ne] by (simp add: trim_btoa)
  have long: "\<not> length ?framed \<le> 12" using ivlen c(2) by simp
  note plain = split_payload [OF assms(3) atob_no_marker [OF assms(4)]]
  note framed = split_payload [OF assms(3) btoa_no_marker [of ?framed]]
  have enc: "encryptData G (pre @ payload) (Some K) w =
      (Inr ?blob, w\<lparr>cursor := cursor w + 12, ops := ops w @ [ImportKey, GetRandomValues 12, Encrypt]\<rparr>)"
    by (simp add: encryptData_unfold [OF Kne] kd klen plain(1) assms(4) c(1))
  have dec: "fst (decryptData G ?blob K w'')
               = Inr ((if pre = [] then defaultPrefix else pre) @ btoa bin)" for w''
    using blob_ne not_blank long
    by (simp add: decryptData_unfold kd klen framed atob_btoa
        bytes_of_binary_comp ivlen c(3) binary_of_bytes_comp del: map_append)
  have enc_img: "encryptImage G (pre @ payload) K w =
      (Inr ?blob, w\<lparr>cursor := cursor w + 12, ops := ops w @ [ImportKey, GetRandomValues 12, Encrypt]\<rparr>)"
    by (simp add: encryptImage_unfold kd klen plain(1) assms(4) c(1))
  have dec_img: "fst (decryptImage G ?blob K w'') = Inr (pre @ btoa bin)" for w''
    using blob_ne not_blank long
    by (simp add: decryptImage_unfold kd klen framed atob_btoa
        bytes_of_binary_comp ivlen c(3) binary_of_bytes_comp del: map_append)
  from enc dec enc_img dec_img show ?thesis by blast
qed

lemma decrypt_rejects_with_primitive:
  assumes "dat \<noteq> []" "trim (snd (splitDataUrl dat)) \<noteq> []"
    and "length (hexStringToBuffer key) \<in> {16, 24, 32}"
    and "atob (snd (splitDataUrl dat)) = Some bin" "12 < length bin"
    and "gcm_decrypt G (hexStringToBuffer key) (take 12 (map charCodeAt bin))
           (drop 12 (map charCodeAt bin)) = None"
  shows "decryptData G dat key w =
           (Inl (DecryptDataFailed OperationError), w\<lparr>ops := ops w @ [ImportKey, Decrypt]\<rparr>)"
  using assms by (simp add: decryptData_unfold)

section \<open>The functions at the sample values\<close>

lemma sample_gcm_correct: "gcm_correct sample_gcm"
  unfolding gcm_correct_def sample_gcm_def by auto

lemma sample_key_generated: "fst (generateEncryptionKey sample_world) = sample_key"
  by (simp add: generateEncryptionKey_def getRandomValues_def sample_world_def sample_key_def
      upt_rec bufferToHexString_def padStart2_def toString16_def hexDigitChar_def
      char_of_eq_iff take_bit_eq_mod)

lemma btoa_hello_str: "btoa ''hello'' = ''aGVsbG8=''"
  by (simp add: btoa_def b64char_def char_of_eq_iff take_bit_eq_mod)

lemma sample_prefix:
  "\<exists>a. ''data:text/plain;base64,'' = a @ marker \<and> \<not> includes_str (a @ butlast marker) marker"
  by (rule exI [of _ "''data:text/plain;''"]) (simp add: marker_def)

section \<open>Encryption followed by decryption\<close>


lemma encryptData_round:
  assumes "gcm_correct G" and "key \<noteq> []"
    and "length (hexStringToBuffer key) \<in> {16, 24, 32}"
    and "pre = [] \<or> (\<exists>a. pre = a @ marker \<and> \<not> includes_str (a @ butlast marker) marker)"
    and "atob payload = Some bin"
  shows "\<exists>c. encryptData G (pre @ payload) (Some key) w =
           (Inr (pre @ btoa (map fromCharCode (fst (getRandomValues 12 w) @ c))),
            w\<lparr>cursor := cursor w + 12, ops := ops w @ [ImportKey, GetRandomValues 12, Encrypt]\<rparr>) \<and>
         (\<forall>w''. fst (decryptData G (pre @ btoa (map fromCharCode (fst (getRandomValues 12 w) @ c)))
                   key w'')
            = Inr ((if pre = [] then defaultPrefix else pre) @ btoa bin))"
proof -
  let ?kb = "hexStringToBuffer key"
  let ?iv = "fst (getRandomValues 12 w)"
  let ?p = "map charCodeAt bin"
  have ivlen: "length ?iv = 12" by (simp add: generated_key(3))
  from assms(1,3) ivlen obtain c where
    c: "gcm_encrypt G ?kb ?iv ?p = Some c" "length c = length ?p + 16"
       "gcm_decrypt G ?kb ?iv c = Some ?p"
    unfolding gcm_correct_def by metis
  let ?framed = "map fromCharCode (?iv @ c)"
  let ?blob = "pre @ btoa ?framed"
  have ne: "?framed \<noteq> []" using ivlen by auto
  have blob_ne: "?blob \<noteq> []" using btoa_nonempty [OF ne] by simp
  have not_blank: "trim (btoa ?framed) \<noteq> []"
    using btoa_nonempty [OF ne] by (simp add: trim_btoa)
  have long: "\<not> length ?framed \<le> 12" using ivlen c(2) by simp
  note plain = split_payload [OF assms(4) atob_no_marker [OF assms(5)]]
  note framed = split_payload [OF assms(4) btoa_no_marker [of ?framed]]
  have enc: "encryptData G (pre @ payload) (Some key) w =
      (Inr ?blob, w\<lparr>cursor := cursor w + 12, ops := ops w @ [ImportKey, GetRandomValues 12, Encrypt]\<rparr>)"
    using assms(3) by (simp add: encryptData_unfold [OF assms(2)] plain(1) assms(5) c(1))
  have dec: "fst (decryptData G ?blob key w'')
               = Inr ((if pre = [] then defaultPrefix else pre) @ btoa bin)" for w''
    using blob_ne not_blank long assms(3)
    by (simp add: decryptData_unfold framed atob_btoa
        bytes_of_binary_comp ivlen c(3) binary_of_bytes_comp del: map_append)
  from enc dec show ?thesis by blast
qed

lemma encryptImage_round:
  assumes "gcm_correct G"
    and "length (keyDataOf key) \<in> {16, 24, 32}"
    and "pre = [] \<or> (\<exists>a. pre = a @ marker \<and> \<not> includes_str (a @ butlast marker) marker)"
    and "atob payload = Some bin"
  shows "\<exists>c. encryptImage G (pre @ payload) key w =
           (Inr (pre @ btoa (map fromCharCode (fst (getRandomValues 12 w) @ c))),
            w\<lparr>cursor := cursor w + 12, ops := ops w @ [ImportKey, GetRandomValues 12, Encrypt]\<rparr>) \<and>
         (\<forall>w''. fst (decryptImage G (pre @ btoa (map fromCharCode (fst (getRandomValues 12 w) @ c)))
                   key w'')
            = Inr (pre @ btoa bin))"
proof -
  let ?kb = "keyDataOf key"
  let ?iv = "fst (getRandomValues 12 w)"
  let ?p = "map charCodeAt bin"
  have ivlen: "length ?iv = 12" by (simp add: generated_key(3))
  from assms(1,2) ivlen obtain c where
    c: "gcm_encrypt G ?kb ?iv ?p = Some c" "length c = length ?p + 16"
       "gcm_decrypt G ?kb ?iv c = Some ?p"
    unfolding gcm_correct_def by metis
  let ?framed = "map fromCharCode (?iv @ c)"
  let ?blob = "pre @ btoa ?framed"
  have ne: "?framed \<noteq> []" using ivlen by auto
  have blob_ne: "?blob \<noteq> []" using btoa_nonempty [OF ne] by simp
  have not_blank: "trim (btoa ?framed) \<noteq> []"
    using btoa_nonempty [OF ne] by (simp add: trim_btoa)
  have long: "\<not> length ?framed \<le> 12" using ivlen c(2) by simp
  note plain = split_payload [OF assms(3) atob_no_marker [OF assms(4)]]
  note framed = split_payload [OF assms(3) btoa_no_marker [of ?framed]]
  have enc: "encryptImage G (pre @ payload) key w =
      (Inr ?blob, w\<lparr>cursor := cursor w + 12, ops := ops w @ [ImportKey, GetRandomValues 12, Encrypt]\<rparr>)"
    using assms(2) by (simp add: encryptImage_unfold plain(1) assms(4) c(1))
  have dec: "fst (decryptImage G ?blob key w'') = Inr (pre @ btoa bin)" for w''
    using blob_ne not_blank long assms(2)
    by (simp add: decryptImage_unfold framed atob_btoa
        bytes_of_binary_comp ivlen c(3) binary_of_bytes_comp del: map_append)
  from enc dec show ?thesis by blast
qed

lemma atob_QQ: "atob ''QQ'' = Some ''A''"
  by (simp add: atob_def stripPadding_def isAsciiWhitespace_def b64val_def char_of_eq_iff
      take_bit_eq_mod)

lemma btoa_A: "btoa ''A'' = ''QQ==''"
  by (simp add: btoa_def b64char_def char_of_eq_iff take_bit_eq_mod)

lemma sample_key_valid:
  "length (hexStringToBuffer sample_key) \<in> {16, 24, 32}"
  "length (keyDataOf sample_key) \<in> {16, 24, 32}"
  by (simp_all add: sample_key_bytes sample_keyData)

lemma bare: "([] :: string) = [] \<or>
    (\<exists>a. ([] :: string) = a @ marker \<and> \<not> includes_str (a @ butlast marker) marker)"
  by simp

lemma QQ_image:
  assumes "gcm_correct G"
  shows "\<exists>blob w'. encryptImage G ''QQ'' sample_key w = (Inr blob, w') \<and>
           \<not> includes_str blob marker \<and>
           (\<forall>w''. fst (decryptImage G blob sample_key w'') = Inr ''QQ=='')"
  using encryptImage_round [OF assms sample_key_valid(2) bare atob_QQ, of w]
  by (auto simp: btoa_A includes_str_sublist btoa_no_marker)

lemma QQ_data:
  assumes "gcm_correct G"
  shows "\<exists>blob w'. encryptData G ''QQ'' (Some sample_key) w = (Inr blob, w') \<and>
           (\<forall>w''. fst (decryptData G blob sample_key w'') = Inr (defaultPrefix @ ''QQ==''))"
  using encryptData_round [OF assms sample_key_nonempty sample_key_valid(1) bare atob_QQ, of w]
  by (auto simp: btoa_A)

lemma hello_decodes: "atob ''aGVsbG8='' = Some ''hello''"
  using atob_btoa [of "''hello''"] by (simp only: btoa_hello_str)

lemma hello_image:
  assumes "gcm_correct G"
  shows "\<exists>blob w'. encryptImage G ''aGVsbG8='' sample_key w = (Inr blob, w') \<and>
           \<not> includes_str blob marker \<and>
           (\<forall>w''. fst (decryptImage G blob sample_key w'') = Inr ''aGVsbG8='')"
  using encryptImage_round [OF assms sample_key_valid(2) bare hello_decodes, of w]
  by (auto simp: btoa_hello_str includes_str_sublist btoa_no_marker)

lemma encryptData_succeeds:
  assumes "gcm_correct G" "key \<noteq> []" "length (hexStringToBuffer key) \<in> {16, 24, 32}"
    and "atob (snd (splitDataUrl dat)) = Some bin"
  shows "\<exists>c. encryptData G dat (Some key) w =
           (Inr (fst (splitDataUrl dat) @ btoa (map fromCharCode (fst (getRandomValues 12 w) @ c))),
            w\<lparr>cursor := cursor w + 12, ops := ops w @ [ImportKey, GetRandomValues 12, Encrypt]\<rparr>)"
proof -
  have "length (fst (getRandomValues 12 w)) = 12" by (simp add: generated_key(3))
  with assms(1,3) obtain c where
    "gcm_encrypt G (hexStringToBuffer key) (fst (getRandomValues 12 w)) (map charCodeAt bin) = Some c"
    unfolding gcm_correct_def by metis
  then have "encryptData G dat (Some key) w =
           (Inr (fst (splitDataUrl dat) @ btoa (map fromCharCode (fst (getRandomValues 12 w) @ c))),
            w\<lparr>cursor := cursor w + 12, ops := ops w @ [ImportKey, GetRandomValues 12, Encrypt]\<rparr>)"
    using assms(3,4) by (simp add: encryptData_unfold [OF assms(2)])
  then show ?thesis by blast
qed

lemma encryptImage_succeeds:
  assumes "gcm_correct G" "length (keyDataOf key) \<in> {16, 24, 32}"
    and "atob (snd (splitDataUrl dat)) = Some bin"
  shows "\<exists>c. encryptImage G dat key w =
           (Inr (fst (splitDataUrl dat) @ btoa (map fromCharCode (fst (getRandomValues 12 w) @ c))),
            w\<lparr>cursor := cursor w + 12, ops := ops w @ [ImportKey, GetRandomValues 12, Encrypt]\<rparr>)"
proof -
  have "length (fst (getRandomValues 12 w)) = 12" by (simp add: generated_key(3))
  with assms(1,2) obtain c where
    "gcm_encrypt G (keyDataOf key) (fst (getRandomValues 12 w)) (map charCodeAt bin) = Some c"
    unfolding gcm_correct_def by metis
  then have "encryptImage G dat key w =
           (Inr (fst (splitDataUrl dat) @ btoa (map fromCharCode (fst (getRandomValues 12 w) @ c))),
            w\<lparr>cursor := cursor w + 12, ops := ops w @ [ImportKey, GetRandomValues 12, Encrypt]\<rparr>)"
    using assms(2,3) by (simp add: encryptImage_unfold)
  then show ?thesis by blast
qed

lemma sample_payload:
  "splitDataUrl ''data:text/plain;base64,aGVsbG8='' = (''data:text/plain;base64,'', ''aGVsbG8='')"
  using split_framed(1) [of "''data:text/plain;base64,''" "''hello''"] sample_prefix
  by (simp add: btoa_hello_str)

section \<open>Claims about encryption and decryption\<close>

text \<open>
  C1 (counterexample).  The claim: decrypting what encryption returned gives back the
  plaintext string \<open>P\<close>.  \<open>QQ\<close> is base64 without its padding; \<open>atob\<close> accepts it (it is the
  byte 0x41).  Under the key that \<open>generateEncryptionKey\<close> returns on the sample entropy tape,
  and under any AES-GCM that decrypts what it encrypted, no round trip of \<open>QQ\<close> returns \<open>QQ\<close>,
  with or without the default prefix: the code returns \<open>QQ==\<close>, as the run with the sample
  instance shows.
\<close>

theorem round_trip_unpadded_counterexample:
  "\<not> (\<exists>G w blob w' w''. gcm_correct G \<and>
         encryptImage G ''QQ'' sample_key w = (Inr blob, w') \<and>
         fst (decryptImage G blob sample_key w'') = Inr ''QQ'') \<and>
   \<not> (\<exists>G w blob w' w''. gcm_correct G \<and>
         encryptData G ''QQ'' (Some sample_key) w = (Inr blob, w') \<and>
         (fst (decryptData G blob sample_key w'') = Inr ''QQ'' \<or>
          fst (decryptData G blob sample_key w'') = Inr (defaultPrefix @ ''QQ''))) \<and>
   (\<exists>blob w'. encryptImage sample_gcm ''QQ'' sample_key sample_world = (Inr blob, w') \<and>
      fst (decryptImage sample_gcm blob sample_key w') = Inr ''QQ=='')"
proof (intro conjI notI)
  assume "\<exists>G w blob w' w''. gcm_correct G \<and>
         encryptImage G ''QQ'' sample_key w = (Inr blob, w') \<and>
         fst (decryptImage G blob sample_key w'') = Inr ''QQ''"
  then obtain G w blob w' w'' where g: "gcm_correct G"
    and e: "encryptImage G ''QQ'' sample_key w = (Inr blob, w')"
    and d: "fst (decryptImage G blob sample_key w'') = Inr ''QQ''" by blast
  from QQ_image [OF g, of w] e have "fst (decryptImage G blob sample_key w'') = Inr ''QQ==''"
    by auto
  with d show False by simp
next
  assume "\<exists>G w blob w' w''. gcm_correct G \<and>
         encryptData G ''QQ'' (Some sample_key) w = (Inr blob, w') \<and>
         (fst (decryptData G blob sample_key w'') = Inr ''QQ'' \<or>
          fst (decryptData G blob sample_key w'') = Inr (defaultPrefix @ ''QQ''))"
  then obtain G w blob w' w'' where g: "gcm_correct G"
    and e: "encryptData G ''QQ'' (Some sample_key) w = (Inr blob, w')"
    and d: "fst (decryptData G blob sample_key w'') = Inr ''QQ'' \<or>
          fst (decryptData G blob sample_key w'') = Inr (defaultPrefix @ ''QQ'')" by blast
  from QQ_data [OF g, of w] e
  have "fst (decryptData G blob sample_key w'') = Inr (defaultPrefix @ ''QQ=='')"
    by auto
  with d show False by (simp add: defaultPrefix_def)
next
  from QQ_image [OF sample_gcm_correct, of sample_world]
  show "\<exists>blob w'. encryptImage sample_gcm ''QQ'' sample_key sample_world = (Inr blob, w') \<and>
      fst (decryptImage sample_gcm blob sample_key w') = Inr ''QQ==''"
    by blast
qed

text \<open>
  C1 (amended).  For every plaintext \<open>P\<close> whose payload \<open>atob\<close> accepts, bare or behind a
  data-URL prefix (a prefix that ends with its only \<open>base64,\<close>), and every generated key
  \<open>K\<close>: encryption of \<open>P\<close> under \<open>K\<close> succeeds, and decrypting the blob it returns under \<open>K\<close>
  returns the canonical base64 encoding \<open>btoa bin\<close> of the bytes \<open>bin\<close> of the payload,
  behind the prefix of \<open>P\<close> (\<open>decryptData\<close> puts the default prefix where \<open>P\<close> had none).
  That encoding decodes to the same bytes, and it is the payload of \<open>P\<close> itself exactly when
  that payload is canonical.  Of AES-GCM this assumes only \<open>gcm_correct\<close>.
\<close>

theorem round_trip:
  assumes "gcm_correct G"
    and "K = fst (generateEncryptionKey w0)"
    and "pre = [] \<or> (\<exists>a. pre = a @ marker \<and> \<not> includes_str (a @ butlast marker) marker)"
    and "atob payload = Some bin"
  shows "(\<exists>blob w'. encryptData G (pre @ payload) (Some K) w = (Inr blob, w') \<and>
            (\<forall>w''. fst (decryptData G blob K w'')
                     = Inr ((if pre = [] then defaultPrefix else pre) @ btoa bin))) \<and>
         (\<exists>blob w'. encryptImage G (pre @ payload) K w = (Inr blob, w') \<and>
            (\<forall>w''. fst (decryptImage G blob K w'') = Inr (pre @ btoa bin))) \<and>
         atob (btoa bin) = Some bin \<and>
         (pre @ btoa bin = pre @ payload \<longleftrightarrow> payload = btoa bin)"
  using round_trip_decoded [OF assms, of w] atob_btoa [of bin] by auto

theorem round_trip_witness:
  "(\<exists>blob w'. encryptData sample_gcm ''data:text/plain;base64,aGVsbG8='' (Some sample_key) sample_world
       = (Inr blob, w') \<and>
     fst (decryptData sample_gcm blob sample_key w') = Inr ''data:text/plain;base64,aGVsbG8='') \<and>
   (\<exists>blob w'. encryptImage sample_gcm ''aGVsbG8='' sample_key sample_world = (Inr blob, w') \<and>
        fst (decryptImage sample_gcm blob sample_key w') = Inr ''aGVsbG8='') \<and>
   (\<exists>blob w'. encryptImage sample_gcm ''QQ'' sample_key sample_world = (Inr blob, w') \<and>
        fst (decryptImage sample_gcm blob sample_key w') = Inr ''QQ=='') \<and>
   (\<exists>blob w'. encryptData sample_gcm ''QQ'' (Some sample_key) sample_world = (Inr blob, w') \<and>
        fst (decryptData sample_gcm blob sample_key w')
          = Inr ''data:application/octet-stream;base64,QQ=='')"
proof -
  have pre: "''data:text/plain;base64,'' = [] \<or>
      (\<exists>a. ''data:text/plain;base64,'' = a @ marker \<and> \<not> includes_str (a @ butlast marker) marker)"
    using sample_prefix by blast
  have hello: "atob ''aGVsbG8='' = Some ''hello''"
    using atob_btoa [of "''hello''"] by (simp only: btoa_hello_str)
  note k = sample_key_generated [symmetric]
  from round_trip [OF sample_gcm_correct k pre hello, of sample_world]
  have a: "\<exists>blob w'. encryptData sample_gcm ''data:text/plain;base64,aGVsbG8='' (Some sample_key) sample_world
       = (Inr blob, w') \<and>
     fst (decryptData sample_gcm blob sample_key w') = Inr ''data:text/plain;base64,aGVsbG8=''"
    unfolding btoa_hello_str by (simp; blast)
  from round_trip [OF sample_gcm_correct k bare hello, of sample_world]
  have b: "\<exists>blob w'. encryptImage sample_gcm ''aGVsbG8='' sample_key sample_world = (Inr blob, w') \<and>
        fst (decryptImage sample_gcm blob sample_key w') = Inr ''aGVsbG8=''"
    unfolding btoa_hello_str by (simp; blast)
  from round_trip [OF sample_gcm_correct k bare atob_QQ, of sample_world]
  have c: "(\<exists>blob w'. encryptImage sample_gcm ''QQ'' sample_key sample_world = (Inr blob, w') \<and>
        fst (decryptImage sample_gcm blob sample_key w') = Inr ''QQ=='') \<and>
   (\<exists>blob w'. encryptData sample_gcm ''QQ'' (Some sample_key) sample_world = (Inr blob, w') \<and>
        fst (decryptData sample_gcm blob sample_key w')
          = Inr ''data:application/octet-stream;base64,QQ=='')"
    unfolding btoa_A by (simp add: defaultPrefix_def; blast)
  from a b c show ?thesis by blast
qed

text \<open>
  C3 (counterexample).  The claim: decryption of an input without the marker returns output
  that begins with \<open>data:application/octet-stream;base64,\<close>.  Whatever \<open>encryptImage\<close>
  returns for the bare payload \<open>aGVsbG8=\<close> has no marker, and under no AES-GCM that decrypts
  what it encrypted does \<open>decryptImage\<close> return it with a prefix: it returns the bare
  \<open>aGVsbG8=\<close>, as the run with the sample instance shows.
\<close>

theorem decryptImage_bare_counterexample:
  "\<not> (\<exists>G w blob w' w'' out. gcm_correct G \<and>
         encryptImage G ''aGVsbG8='' sample_key w = (Inr blob, w') \<and>
         fst (decryptImage G blob sample_key w'') = Inr out \<and>
         (includes_str blob marker \<or> prefix defaultPrefix out)) \<and>
   (\<exists>blob w'. encryptImage sample_gcm ''aGVsbG8='' sample_key sample_world = (Inr blob, w') \<and>
      \<not> includes_str blob marker \<and>
      fst (decryptImage sample_gcm blob sample_key w') = Inr ''aGVsbG8='' \<and>
      \<not> prefix defaultPrefix ''aGVsbG8='')"
proof (intro conjI notI)
  assume "\<exists>G w blob w' w'' out. gcm_correct G \<and>
         encryptImage G ''aGVsbG8='' sample_key w = (Inr blob, w') \<and>
         fst (decryptImage G blob sample_key w'') = Inr out \<and>
         (includes_str blob marker \<or> prefix defaultPrefix out)"
  then obtain G w blob w' w'' out where g: "gcm_correct G"
    and e: "encryptImage G ''aGVsbG8='' sample_key w = (Inr blob, w')"
    and d: "fst (decryptImage G blob sample_key w'') = Inr out"
    and c: "includes_str blob marker \<or> prefix defaultPrefix out" by blast
  from hello_image [OF g, of w] e
  have "\<not> includes_str blob marker" "fst (decryptImage G blob sample_key w'') = Inr ''aGVsbG8=''"
    by auto
  with d c show False by (auto simp: defaultPrefix_def)
next
  from hello_image [OF sample_gcm_correct, of sample_world]
  show "\<exists>blob w'. encryptImage sample_gcm ''aGVsbG8='' sample_key sample_world = (Inr blob, w') \<and>
      \<not> includes_str blob marker \<and>
      fst (decryptImage sample_gcm blob sample_key w') = Inr ''aGVsbG8='' \<and>
      \<not> prefix defaultPrefix ''aGVsbG8=''"
    by (auto simp: defaultPrefix_def)
qed

text \<open>
  C3 (amended).  When the encryption input contains \<open>base64,\<close>, everything up to and
  including its first occurrence is the start of the output of \<open>encryptData\<close> and of
  \<open>encryptImage\<close>.  When the decryption input does not contain it, the output of
  \<open>decryptData\<close> begins with \<open>data:application/octet-stream;base64,\<close>, and the output of
  \<open>decryptImage\<close> is bare base64 without any prefix.  These outputs exist: under a key of
  valid length and a payload that decodes, encryption returns, and the blob it returns for
  a bare payload has no marker and decrypts to the default prefix followed by base64 in
  \<open>decryptData\<close>, to bare base64 in \<open>decryptImage\<close>.
\<close>

theorem prefix_handling:
  "(includes_str dat marker \<longrightarrow>
      (\<exists>a r. dat = a @ marker @ r \<and> \<not> includes_str (a @ butlast marker) marker \<and>
         (\<forall>out. fst (encryptData G dat key_option w) = Inr out \<longrightarrow> prefix (a @ marker) out) \<and>
         (\<forall>out. fst (encryptImage G dat key w) = Inr out \<longrightarrow> prefix (a @ marker) out))) \<and>
   (\<not> includes_str dat marker \<longrightarrow>
      (\<forall>out. fst (decryptData G dat key w) = Inr out \<longrightarrow> prefix defaultPrefix out) \<and>
      (\<forall>out. fst (decryptImage G dat key w) = Inr out \<longrightarrow>
         (\<exists>bs. out = btoa bs) \<and> \<not> prefix defaultPrefix out)) \<and>
   (gcm_correct G \<and> atob (snd (splitDataUrl dat)) = Some bin \<longrightarrow>
      (key \<noteq> [] \<and> length (hexStringToBuffer key) \<in> {16, 24, 32} \<longrightarrow>
         (\<exists>out. fst (encryptData G dat (Some key) w) = Inr out)) \<and>
      (length (keyDataOf key) \<in> {16, 24, 32} \<longrightarrow>
         (\<exists>out. fst (encryptImage G dat key w) = Inr out))) \<and>
   (gcm_correct G \<and> atob dat = Some bin \<longrightarrow>
      (key \<noteq> [] \<and> length (hexStringToBuffer key) \<in> {16, 24, 32} \<longrightarrow>
         (\<exists>blob w'. encryptData G dat (Some key) w = (Inr blob, w') \<and>
            \<not> includes_str blob marker \<and>
            (\<forall>w''. fst (decryptData G blob key w'') = Inr (defaultPrefix @ btoa bin)))) \<and>
      (length (keyDataOf key) \<in> {16, 24, 32} \<longrightarrow>
         (\<exists>blob w'. encryptImage G dat key w = (Inr blob, w') \<and>
            \<not> includes_str blob marker \<and>
            (\<forall>w''. fst (decryptImage G blob key w'') = Inr (btoa bin)))))"
proof -
  have enc: "includes_str dat marker \<Longrightarrow>
      \<exists>a r. dat = a @ marker @ r \<and> \<not> includes_str (a @ butlast marker) marker \<and>
         (\<forall>out. fst (encryptData G dat key_option w) = Inr out \<longrightarrow> prefix (a @ marker) out) \<and>
         (\<forall>out. fst (encryptImage G dat key w) = Inr out \<longrightarrow> prefix (a @ marker) out)"
  proof -
    assume "includes_str dat marker"
    then have "sublist marker dat" by (simp add: includes_str_sublist)
    from splitDataUrl_marker [OF this] obtain a r where
      ar: "dat = a @ marker @ r" "\<not> sublist marker (a @ butlast marker)"
        "splitDataUrl dat = (a @ marker, hd (split_from marker [] r))" by blast
    have "\<forall>out. fst (encryptData G dat key_option w) = Inr out \<longrightarrow> prefix (a @ marker) out"
      using encryptData_out [of G dat key_option w] ar(3) by auto
    moreover have "\<forall>out. fst (encryptImage G dat key w) = Inr out \<longrightarrow> prefix (a @ marker) out"
      using encryptImage_out [of G dat key w] ar(3) by auto
    ultimately show ?thesis
      using ar(1,2) by (auto simp: includes_str_sublist)
  qed
  have dec: "\<not> includes_str dat marker \<Longrightarrow>
      \<forall>out. fst (decryptData G dat key w) = Inr out \<longrightarrow> prefix defaultPrefix out"
    using decryptData_out [of G dat key w] by auto
  have img: "\<not> includes_str dat marker \<Longrightarrow>
      \<forall>out. fst (decryptImage G dat key w) = Inr out \<longrightarrow>
         (\<exists>bs. out = btoa bs) \<and> \<not> prefix defaultPrefix out"
    using decryptImage_out [of G dat key w] plain_prefix [of dat] btoa_no_defaultPrefix by auto
  have ok_data: "gcm_correct G \<Longrightarrow> atob (snd (splitDataUrl dat)) = Some bin \<Longrightarrow>
      key \<noteq> [] \<Longrightarrow> length (hexStringToBuffer key) \<in> {16, 24, 32} \<Longrightarrow>
      \<exists>out. fst (encryptData G dat (Some key) w) = Inr out"
    using encryptData_succeeds [of G key dat bin w] by auto
  have ok_img: "gcm_correct G \<Longrightarrow> atob (snd (splitDataUrl dat)) = Some bin \<Longrightarrow>
      length (keyDataOf key) \<in> {16, 24, 32} \<Longrightarrow>
      \<exists>out. fst (encryptImage G dat key w) = Inr out"
    using encryptImage_succeeds [of G key dat bin w] by auto
  have rt_data: "gcm_correct G \<Longrightarrow> atob dat = Some bin \<Longrightarrow>
      key \<noteq> [] \<Longrightarrow> length (hexStringToBuffer key) \<in> {16, 24, 32} \<Longrightarrow>
      \<exists>blob w'. encryptData G dat (Some key) w = (Inr blob, w') \<and>
            \<not> includes_str blob marker \<and>
            (\<forall>w''. fst (decryptData G blob key w'') = Inr (defaultPrefix @ btoa bin))"
    using encryptData_round [of G key "[]" dat bin w]
    by (auto simp: includes_str_sublist btoa_no_marker)
  have rt_img: "gcm_correct G \<Longrightarrow> atob dat = Some bin \<Longrightarrow>
      length (keyDataOf key) \<in> {16, 24, 32} \<Longrightarrow>
      \<exists>blob w'. encryptImage G dat key w = (Inr blob, w') \<and>
            \<not> includes_str blob marker \<and>
            (\<forall>w''. fst (decryptImage G blob key w'') = Inr (btoa bin))"
    using encryptImage_round [of G key "[]" dat bin w]
    by (auto simp: includes_str_sublist btoa_no_marker)
  from enc dec img ok_data ok_img rt_data rt_img show ?thesis by blast
qed

theorem prefix_handling_witness:
  "(\<exists>a r out. ''data:text/plain;base64,aGVsbG8='' = a @ marker @ r \<and>
      fst (encryptData sample_gcm ''data:text/plain;base64,aGVsbG8='' (Some sample_key) sample_world)
        = Inr out \<and> prefix (a @ marker) out) \<and>
   (\<exists>a r out. ''data:text/plain;base64,aGVsbG8='' = a @ marker @ r \<and>
      fst (encryptImage sample_gcm ''data:text/plain;base64,aGVsbG8='' sample_key sample_world)
        = Inr out \<and> prefix (a @ marker) out) \<and>
   (\<exists>blob w' out. encryptData sample_gcm ''aGVsbG8='' (Some sample_key) sample_world = (Inr blob, w') \<and>
      \<not> includes_str blob marker \<and>
      fst (decryptData sample_gcm blob sample_key w') = Inr out \<and> prefix defaultPrefix out) \<and>
   (\<exists>blob w' bs. encryptImage sample_gcm ''aGVsbG8='' sample_key sample_world = (Inr blob, w') \<and>
      \<not> includes_str blob marker \<and>
      fst (decryptImage sample_gcm blob sample_key w') = Inr (btoa bs))"
proof -
  let ?D = "''data:text/plain;base64,aGVsbG8=''"
  have inc: "includes_str ?D marker"
    by (simp add: marker_def)
  have pay: "atob (snd (splitDataUrl ?D)) = Some ''hello''"
    by (simp add: sample_payload hello_decodes)
  note url = prefix_handling [of ?D sample_gcm "Some sample_key" sample_world sample_key "''hello''"]
  from url inc obtain a r where ar: "?D = a @ marker @ r"
    and d: "\<forall>out. fst (encryptData sample_gcm ?D (Some sample_key) sample_world) = Inr out
              \<longrightarrow> prefix (a @ marker) out"
    and i: "\<forall>out. fst (encryptImage sample_gcm ?D sample_key sample_world) = Inr out
              \<longrightarrow> prefix (a @ marker) out"
    by blast
  from url sample_gcm_correct pay sample_key_nonempty sample_key_valid
  obtain out1 out2 where o1: "fst (encryptData sample_gcm ?D (Some sample_key) sample_world) = Inr out1"
    and o2: "fst (encryptImage sample_gcm ?D sample_key sample_world) = Inr out2"
    by blast
  from ar d o1 have first: "\<exists>a r out. ?D = a @ marker @ r \<and>
      fst (encryptData sample_gcm ?D (Some sample_key) sample_world) = Inr out \<and>
      prefix (a @ marker) out" by blast
  from ar i o2 have second: "\<exists>a r out. ?D = a @ marker @ r \<and>
      fst (encryptImage sample_gcm ?D sample_key sample_world) = Inr out \<and>
      prefix (a @ marker) out" by blast
  note bare_in = prefix_handling [of "''aGVsbG8=''" sample_gcm "Some sample_key" sample_world sample_key "''hello''"]
  from bare_in sample_gcm_correct hello_decodes sample_key_nonempty sample_key_valid
  obtain blob1 w1 blob2 w2 where
    b1: "encryptData sample_gcm ''aGVsbG8='' (Some sample_key) sample_world = (Inr blob1, w1)"
      "\<not> includes_str blob1 marker"
      "fst (decryptData sample_gcm blob1 sample_key w1) = Inr (defaultPrefix @ btoa ''hello'')"
    and b2: "encryptImage sample_gcm ''aGVsbG8='' sample_key sample_world = (Inr blob2, w2)"
      "\<not> includes_str blob2 marker"
      "fst (decryptImage sample_gcm blob2 sample_key w2) = Inr (btoa ''hello'')"
    by blast
  from prefix_handling [of blob1 sample_gcm None w1 sample_key "[]"] b1(2,3)
  have "prefix defaultPrefix (defaultPrefix @ btoa ''hello'')" by blast
  with b1 have third: "\<exists>blob w' out.
      encryptData sample_gcm ''aGVsbG8='' (Some sample_key) sample_world = (Inr blob, w') \<and>
      \<not> includes_str blob marker \<and>
      fst (decryptData sample_gcm blob sample_key w') = Inr out \<and> prefix defaultPrefix out"
    by blast
  from b2 have fourth: "\<exists>blob w' bs.
      encryptImage sample_gcm ''aGVsbG8='' sample_key sample_world = (Inr blob, w') \<and>
      \<not> includes_str blob marker \<and>
      fst (decryptImage sample_gcm blob sample_key w') = Inr (btoa bs)"
    by blast
  from first second third fourth show ?thesis by blast
qed



text \<open>
  C10.  The two modules agree.  For every key of 64 lowercase hex characters, from the same
  state of the entropy source: \<open>encryptImage\<close> and \<open>encryptData\<close> return the same string or
  both fail, and leave the same state; on an input that contains \<open>base64,\<close>,
  \<open>decryptImage\<close> and \<open>decryptData\<close> return the same string or both fail; on an input that
  does not, \<open>decryptData\<close> returns what \<open>decryptImage\<close> returns behind the default prefix.
\<close>

theorem modules_agree:
  assumes "length key = 64" and "\<forall>c \<in> set key. c \<in> set ''0123456789abcdef''"
  shows "returned (encryptImage G dat key w) = returned (encryptData G dat (Some key) w) \<and>
         snd (encryptImage G dat key w) = snd (encryptData G dat (Some key) w) \<and>
         (includes_str dat marker \<longrightarrow>
            returned (decryptImage G dat key w) = returned (decryptData G dat key w)) \<and>
         (\<not> includes_str dat marker \<longrightarrow>
            returned (decryptData G dat key w) =
              map_option (\<lambda>s. defaultPrefix @ s) (returned (decryptImage G dat key w))) \<and>
         snd (decryptImage G dat key w) = snd (decryptData G dat key w)"
proof -
  have key: "key \<noteq> []" using assms(1) by auto
  have "even (length key)" using assms(1) by simp
  moreover have "\<forall>c \<in> set key. isHexDigit c" using assms(2) lowercase_hex by blast
  ultimately have same: "keyDataOf key = hexStringToBuffer key" by (rule keyDataOf_hex)
  have e1: "returned (encryptImage G dat key w) = returned (encryptData G dat (Some key) w)"
    by (simp add: returned_def encryptImage_unfold encryptData_unfold [OF key] same
        split: option.splits)
  have e2: "snd (encryptImage G dat key w) = snd (encryptData G dat (Some key) w)"
    by (simp add: encryptImage_unfold encryptData_unfold [OF key] same split: option.splits)
  have d1: "includes_str dat marker \<Longrightarrow>
      returned (decryptImage G dat key w) = returned (decryptData G dat key w)"
    by (simp add: returned_def decryptImage_unfold decryptData_unfold same split: option.splits)
  have d2: "\<not> includes_str dat marker \<Longrightarrow>
      returned (decryptData G dat key w) =
        map_option (\<lambda>s. defaultPrefix @ s) (returned (decryptImage G dat key w))"
    by (simp add: returned_def decryptImage_unfold decryptData_unfold same plain_prefix
        split: option.splits)
  have d3: "snd (decryptImage G dat key w) = snd (decryptData G dat key w)"
    by (simp add: decryptImage_unfold decryptData_unfold same split: option.splits)
  from e1 e2 d1 d2 d3 show ?thesis by blast
qed

theorem modules_agree_witness:
  "returned (encryptImage sample_gcm ''data:text/plain;base64,aGVsbG8='' sample_key sample_world)
     = returned (encryptData sample_gcm ''data:text/plain;base64,aGVsbG8='' (Some sample_key) sample_world) \<and>
   returned (decryptImage sample_gcm ''data:text/plain;base64,aGVsbG8='' sample_key sample_world)
     = returned (decryptData sample_gcm ''data:text/plain;base64,aGVsbG8='' sample_key sample_world) \<and>
   returned (decryptData sample_gcm ''AAECAwQFBgcICQoLaGVsbG8AAQIDBAUGBwgJCgsMDQ4P'' sample_key sample_world)
     = map_option (\<lambda>s. defaultPrefix @ s)
         (returned (decryptImage sample_gcm ''AAECAwQFBgcICQoLaGVsbG8AAQIDBAUGBwgJCgsMDQ4P'' sample_key sample_world))"
proof -
  have len: "length sample_key = 64"
    by (simp add: sample_key_def)
  have hex: "\<forall>c \<in> set sample_key. c \<in> set ''0123456789abcdef''"
    by (simp add: sample_key_def)
  have inc: "includes_str ''data:text/plain;base64,aGVsbG8='' marker"
    by (simp add: marker_def)
  have no: "\<not> includes_str ''AAECAwQFBgcICQoLaGVsbG8AAQIDBAUGBwgJCgsMDQ4P'' marker"
    by (simp add: marker_def)
  from modules_agree [OF len hex, of sample_gcm "''data:text/plain;base64,aGVsbG8=''" sample_world]
    modules_agree [OF len hex, of sample_gcm "''AAECAwQFBgcICQoLaGVsbG8AAQIDBAUGBwgJCgsMDQ4P''" sample_world]
    inc no
  show ?thesis by blast
qed

end
